theory Spec2Isabelle
  imports Complex_Main "HOL-Library.Word"
begin

section \<open>JavaScript numbers\<close>

text \<open>
  A JavaScript \<^verbatim>\<open>number\<close> is modelled as an exact real or \<^verbatim>\<open>NaN\<close>: rounding of
  doubles, overflow and the sign of zero are not modelled. \<^verbatim>\<open>NaN\<close> is kept because the
  visualizer can compute \<^verbatim>\<open>0 / 0\<close>. Arithmetic with \<^verbatim>\<open>NaN\<close> gives \<^verbatim>\<open>NaN\<close>, every
  comparison with \<^verbatim>\<open>NaN\<close> is false, and \<^verbatim>\<open>Math.min\<close> and \<^verbatim>\<open>Math.max\<close> return
  \<^verbatim>\<open>NaN\<close> when an argument is \<^verbatim>\<open>NaN\<close>.
\<close>

datatype number = NaN | Num real

fun nadd :: "number \<Rightarrow> number \<Rightarrow> number" where
  "nadd (Num a) (Num b) = Num (a + b)"
| "nadd _ _ = NaN"

fun nsub :: "number \<Rightarrow> number \<Rightarrow> number" where
  "nsub (Num a) (Num b) = Num (a - b)"
| "nsub _ _ = NaN"

fun nmul :: "number \<Rightarrow> number \<Rightarrow> number" where
  "nmul (Num a) (Num b) = Num (a * b)"
| "nmul _ _ = NaN"

text \<open>
  Division: \<^verbatim>\<open>0 / 0\<close> is \<^verbatim>\<open>NaN\<close>. A non-zero dividend over zero is an infinity in
  JavaScript, a value this type does not have; it is mapped to \<^verbatim>\<open>NaN\<close> too. The code
  modelled below divides by non-zero constants only, except in
  \<^verbatim>\<open>processFrequencyBands\<close> (an empty group of bins has sum zero) and for the
  gradient position \<^verbatim>\<open>i / (bandCount - 1)\<close> (with one band, \<^verbatim>\<open>i\<close> is zero), where
  the only division by zero is \<^verbatim>\<open>0 / 0\<close>.
\<close>

fun ndiv :: "number \<Rightarrow> number \<Rightarrow> number" where
  "ndiv (Num a) (Num b) = (if b = 0 then NaN else Num (a / b))"
| "ndiv _ _ = NaN"

fun Math_min :: "number \<Rightarrow> number \<Rightarrow> number" where
  "Math_min (Num a) (Num b) = Num (min a b)"
| "Math_min _ _ = NaN"

fun Math_max :: "number \<Rightarrow> number \<Rightarrow> number" where
  "Math_max (Num a) (Num b) = Num (max a b)"
| "Math_max _ _ = NaN"

fun nlt :: "number \<Rightarrow> number \<Rightarrow> bool" where
  "nlt (Num a) (Num b) = (a < b)"
| "nlt _ _ = False"

fun nle :: "number \<Rightarrow> number \<Rightarrow> bool" where
  "nle (Num a) (Num b) = (a \<le> b)"
| "nle _ _ = False"

fun ngt :: "number \<Rightarrow> number \<Rightarrow> bool" where
  "ngt (Num a) (Num b) = (a > b)"
| "ngt _ _ = False"

text \<open>\<^verbatim>\<open>Math.round\<close>, which rounds a half towards plus infinity.\<close>

fun Math_round :: "number \<Rightarrow> number" where
  "Math_round (Num a) = Num (of_int \<lfloor>a + 1 / 2\<rfloor>)"
| "Math_round NaN = NaN"

text \<open>A number that is a real within the closed unit interval.\<close>

fun in_unit :: "number \<Rightarrow> bool" where
  "in_unit (Num a) = (0 \<le> a \<and> a \<le> 1)"
| "in_unit NaN = False"

text \<open>
  Reading an array element as a number: an index out of range reads \<^verbatim>\<open>undefined\<close>,
  which arithmetic turns into \<^verbatim>\<open>NaN\<close> and every comparison rejects. Writing past the
  end extends the array, the skipped slots being holes that read \<^verbatim>\<open>undefined\<close>.
\<close>

definition aget :: "number list \<Rightarrow> nat \<Rightarrow> number" where
  "aget xs i = (if i < length xs then xs ! i else NaN)"

definition aset :: "number list \<Rightarrow> nat \<Rightarrow> number \<Rightarrow> number list" where
  "aset xs i v =
     (if i < length xs then xs[i := v] else xs @ replicate (i - length xs) NaN @ [v])"

section \<open>The audio spectrum visualizer (class AudioSpectrum)\<close>

subsection \<open>Colours and the gradient\<close>

text \<open>The object \<^verbatim>\<open>{ r, g, b }\<close> and Babylon's \<^verbatim>\<open>Color3\<close>.\<close>

datatype color = Color3 (red: number) (green: number) (blue: number)

text \<open>
  \<^verbatim>\<open>getCyberpunkColor(progress)\<close>: three segments, electric blue to cyan, cyan to
  magenta, magenta to hot pink. A \<^verbatim>\<open>NaN\<close> progress fails both comparisons and takes the
  last branch.
\<close>

definition getCyberpunkColor :: "number \<Rightarrow> color" where
  "getCyberpunkColor progress =
     (if nlt progress (Num 0.33) then
        (let t = ndiv progress (Num 0.33) in
         Color3 (nadd (nmul (Num 0) (nsub (Num 1) t)) (nmul (Num 0) t))
                (nadd (nmul (Num 0.5) (nsub (Num 1) t)) (nmul (Num 1) t))
                (Num 1))
      else if nlt progress (Num 0.66) then
        (let t = ndiv (nsub progress (Num 0.33)) (Num 0.33) in
         Color3 (nadd (nmul (Num 0) (nsub (Num 1) t)) (nmul (Num 1) t))
                (nadd (nmul (Num 1) (nsub (Num 1) t)) (nmul (Num 0) t))
                (Num 1))
      else
        (let t = ndiv (nsub progress (Num 0.66)) (Num 0.34) in
         Color3 (Num 1)
                (nadd (nmul (Num 0) (nsub (Num 1) t)) (nmul (Num 0.2) t))
                (nadd (nmul (Num 1) (nsub (Num 1) t)) (nmul (Num 0.8) t))))"

text \<open>\<^verbatim>\<open>new Color3(c.r * k, c.g * k, c.b * k)\<close>, as the constructors scale colours.\<close>

definition scale_color :: "color \<Rightarrow> number \<Rightarrow> color" where
  "scale_color c k = Color3 (nmul (red c) k) (nmul (green c) k) (nmul (blue c) k)"

subsection \<open>Scene objects and the state of the visualizer\<close>

datatype vector3 = Vector3 (vx: number) (vy: number) (vz: number)

record pbr_material =
  baseColor :: color
  emissiveColor :: color
  roughness :: number
  metallicFactor :: number
  alpha :: number

text \<open>
  A mesh with the properties the visualizer touches. \<open>enabled\<close> is what
  \<^verbatim>\<open>setEnabled\<close> sets: a disabled mesh is not rendered.
\<close>

record mesh =
  position :: vector3
  scaling :: vector3
  rotation :: vector3
  enabled :: bool
  material :: pbr_material

record point_light =
  light_position :: vector3
  diffuse :: color
  light_intensity :: number
  light_range :: number

text \<open>The interface \<^verbatim>\<open>ParticleData\<close>.\<close>

record particle_data =
  mesh :: mesh
  velocity :: vector3
  life :: number
  maxLife :: number
  active :: bool
  cylinderIndex :: nat

text \<open>
  The interface \<^verbatim>\<open>AudioSpectrumConfig\<close>. The constructor runs
  \<^verbatim>\<open>new Array(config.bandCount)\<close>, which throws unless the band count is a
  non-negative integer, so the band count of a constructed visualizer is a natural number.
\<close>

record audio_spectrum_config =
  bandCount :: nat
  radius :: number
  maxHeight :: number
  smoothingFactor :: number

text \<open>
  The fields of the class. \<^verbatim>\<open>materials[i]\<close> is the very object
  \<^verbatim>\<open>spectrumBars[i].material\<close> (both are set from one local in
  \<^verbatim>\<open>createSpectrumBars\<close>), so the model keeps it in the bar's mesh only.
  Two parts of the environment are threaded through the state: the pending
  \<^verbatim>\<open>setTimeout\<close> callbacks, each \<^verbatim>\<open>emitParticle(i, intensity)\<close> after a delay in
  milliseconds, and the values \<^verbatim>\<open>Math.random()\<close> returns, as a tape with a read
  position.
\<close>

record audio_spectrum =
  config :: audio_spectrum_config
  frequencyData :: "8 word list option"
  spectrumBars :: "mesh list"
  spectrumLights :: "point_light list"
  smoothedData :: "number list"
  particlePool :: "particle_data list"
  particleEmissionTimers :: "number list"
  timeouts :: "(nat \<times> nat \<times> number) list"
  random_tape :: "nat \<Rightarrow> real"
  random_pos :: nat

definition maxParticlesPerCylinder :: nat where
  "maxParticlesPerCylinder = 10"

definition Math_random :: "audio_spectrum \<Rightarrow> real \<times> audio_spectrum" where
  "Math_random s = (random_tape s (random_pos s), s\<lparr>random_pos := Suc (random_pos s)\<rparr>)"

datatype error = TypeError

text \<open>A counted loop whose body may throw: the first exception ends it.\<close>

fun for_each :: "('i \<Rightarrow> 's \<Rightarrow> error + 's) \<Rightarrow> 'i list \<Rightarrow> 's \<Rightarrow> error + 's" where
  "for_each body [] s = Inr s"
| "for_each body (i # is) s =
     (case body i s of Inl e \<Rightarrow> Inl e | Inr s' \<Rightarrow> for_each body is s')"

subsection \<open>Construction\<close>

text \<open>
  Babylon's defaults for a new mesh and a new PBR material, before the constructors
  below overwrite them (both overwrite the roughness and the metallic factor, whose
  defaults are therefore never read).
\<close>

definition new_material :: pbr_material where
  "new_material =
     \<lparr>baseColor = Color3 (Num 1) (Num 1) (Num 1), emissiveColor = Color3 (Num 0) (Num 0) (Num 0),
      roughness = Num 1, metallicFactor = Num 1, alpha = Num 1\<rparr>"

definition new_mesh :: mesh where
  "new_mesh =
     \<lparr>position = Vector3 (Num 0) (Num 0) (Num 0), scaling = Vector3 (Num 1) (Num 1) (Num 1),
      rotation = Vector3 (Num 0) (Num 0) (Num 0), enabled = True, material = new_material\<rparr>"

text \<open>
  The gradient position of band \<open>i\<close>, \<^verbatim>\<open>i / (this.config.bandCount - 1)\<close>: with a
  single band it is \<^verbatim>\<open>0 / 0\<close>.
\<close>

definition band_progress :: "nat \<Rightarrow> nat \<Rightarrow> number" where
  "band_progress n i = ndiv (Num (real i)) (Num (real n - 1))"

text \<open>One iteration of the loop of \<^verbatim>\<open>createSpectrumBars\<close>: the bar and its light.\<close>

definition create_bar :: "nat \<Rightarrow> nat \<Rightarrow> mesh \<times> point_light" where
  "create_bar n i =
     (let spacing = 1.5;
          totalWidth = (real n - 1) * spacing;
          startX = - totalWidth / 2;
          x = startX + real i * spacing;
          barPosition = Vector3 (Num x) (Num 0.25) (Num 8);
          progress = band_progress n i;
          baseColor = getCyberpunkColor progress;
          material = new_material
            \<lparr>baseColor := scale_color baseColor (Num 0.4),
             emissiveColor := scale_color baseColor (Num 1.5),
             roughness := Num 0.05, metallicFactor := Num 0.9\<rparr>;
          bar = new_mesh\<lparr>position := barPosition, material := material\<rparr>;
          light = \<lparr>light_position = barPosition,
                   diffuse = Color3 (red baseColor) (green baseColor) (blue baseColor),
                   light_intensity = Num 3.0, light_range = Num 15\<rparr>
      in (bar, light))"

definition createSpectrumBars :: "audio_spectrum \<Rightarrow> audio_spectrum" where
  "createSpectrumBars s =
     (let n = bandCount (config s) in
      s\<lparr>spectrumBars := spectrumBars s @ map (\<lambda>i. fst (create_bar n i)) [0..<n],
        spectrumLights := spectrumLights s @ map (\<lambda>i. snd (create_bar n i)) [0..<n]\<rparr>)"

text \<open>One iteration of the loop of \<^verbatim>\<open>initializeParticlePool\<close>: the entry pushed.\<close>

definition create_particle :: "nat \<Rightarrow> nat \<Rightarrow> particle_data" where
  "create_particle n i =
     (let cylinderIndex = i div maxParticlesPerCylinder;
          progress = band_progress n cylinderIndex;
          baseColor = getCyberpunkColor progress;
          material = new_material
            \<lparr>baseColor := scale_color baseColor (Num 0.3),
             emissiveColor := scale_color baseColor (Num 1.2),
             roughness := Num 0.1, metallicFactor := Num 0.8, alpha := Num 0.8\<rparr>;
          particle = new_mesh\<lparr>enabled := False, material := material\<rparr>
      in \<lparr>mesh = particle, velocity = Vector3 (Num 0) (Num 0) (Num 0), life = Num 0,
          maxLife = Num 3.0, active = False, cylinderIndex = cylinderIndex\<rparr>)"

definition initializeParticlePool :: "audio_spectrum \<Rightarrow> audio_spectrum" where
  "initializeParticlePool s =
     (let n = bandCount (config s);
          totalParticles = n * maxParticlesPerCylinder
      in s\<lparr>particlePool := particlePool s @ map (create_particle n) [0..<totalParticles]\<rparr>)"

text \<open>
  The constructor. \<^verbatim>\<open>initializeAudio\<close> is asynchronous: the sample array exists only
  once the microphone is granted (event \<open>AudioInitialized\<close> below). The tape of random
  values is the environment's.
\<close>

definition AudioSpectrum :: "audio_spectrum_config \<Rightarrow> (nat \<Rightarrow> real) \<Rightarrow> audio_spectrum" where
  "AudioSpectrum cfg tape =
     initializeParticlePool (createSpectrumBars
       \<lparr>config = cfg, frequencyData = None, spectrumBars = [], spectrumLights = [],
        smoothedData = replicate (bandCount cfg) (Num 0), particlePool = [],
        particleEmissionTimers = replicate (bandCount cfg) (Num 0), timeouts = [],
        random_tape = tape, random_pos = 0\<rparr>)"

subsection \<open>Band aggregation and smoothing\<close>

text \<open>
  The body of the loop of \<^verbatim>\<open>processFrequencyBands\<close>, in three parts: the mean of the
  group of bins of band \<open>i\<close>, its normalisation, and the smoothing update. The sample
  is a \<^verbatim>\<open>Uint8Array\<close>. With no band the loop does not run and
  \<^verbatim>\<open>bandsPerBar\<close> is not used (the quotient by zero is \<open>0\<close> here). When the group
  is empty, \<^verbatim>\<open>sum\<close> is zero and so is the divisor: the mean is \<^verbatim>\<open>NaN\<close>.
\<close>

definition bandsPerBar :: "8 word list \<Rightarrow> nat \<Rightarrow> nat" where
  "bandsPerBar fd n = length fd div n"

definition band_average :: "8 word list \<Rightarrow> nat \<Rightarrow> nat \<Rightarrow> number" where
  "band_average fd n i =
     (let startIndex = i * bandsPerBar fd n;
          endIndex = min (startIndex + bandsPerBar fd n) (length fd);
          sum = (\<Sum>j\<leftarrow>[startIndex..<endIndex]. unat (fd ! j))
      in ndiv (Num (real sum)) (Num (real_of_int (int endIndex - int startIndex))))"

definition band_normalized :: "8 word list \<Rightarrow> nat \<Rightarrow> nat \<Rightarrow> number" where
  "band_normalized fd n i =
     Math_min (nmul (ndiv (band_average fd n i) (Num 255)) (Num 2.5)) (Num 1)"

definition smooth :: "number \<Rightarrow> number \<Rightarrow> number" where
  "smooth old normalized = nadd (nmul old (Num 0.7)) (nmul normalized (Num 0.3))"

definition process_band :: "8 word list \<Rightarrow> nat \<Rightarrow> audio_spectrum \<Rightarrow> audio_spectrum" where
  "process_band fd i s =
     s\<lparr>smoothedData :=
         aset (smoothedData s) i
           (smooth (aget (smoothedData s) i) (band_normalized fd (bandCount (config s)) i))\<rparr>"

definition processFrequencyBands :: "audio_spectrum \<Rightarrow> audio_spectrum" where
  "processFrequencyBands s =
     (case frequencyData s of
        None \<Rightarrow> s
      | Some fd \<Rightarrow> fold (process_band fd) [0..<bandCount (config s)] s)"

text \<open>
  \<^verbatim>\<open>analyser.getByteFrequencyData(this.frequencyData)\<close> overwrites the array in place
  with the current magnitudes and keeps its length: magnitudes beyond the array are
  dropped, and slots beyond the magnitudes are left as they were.
\<close>

definition getByteFrequencyData :: "8 word list \<Rightarrow> audio_spectrum \<Rightarrow> audio_spectrum" where
  "getByteFrequencyData bins s =
     (case frequencyData s of
        None \<Rightarrow> s
      | Some fd \<Rightarrow> s\<lparr>frequencyData := Some (take (length fd) bins @ drop (length bins) fd)\<rparr>)"

subsection \<open>Bars and lights\<close>

definition set_vy :: "number \<Rightarrow> vector3 \<Rightarrow> vector3" where
  "set_vy y v = Vector3 (vx v) y (vz v)"

text \<open>
  The body of the loop of \<^verbatim>\<open>updateSpectrumBars\<close>. A bar without a light would make
  \<^verbatim>\<open>light.position\<close> throw.
\<close>

definition update_bar :: "nat \<Rightarrow> audio_spectrum \<Rightarrow> error + audio_spectrum" where
  "update_bar i s =
     (if i \<ge> length (spectrumLights s) then Inl TypeError
      else
        (let bar = spectrumBars s ! i;
             light = spectrumLights s ! i;
             intensity = aget (smoothedData s) i;
             targetHeight = nadd (Num 0.5) (nmul intensity (maxHeight (config s)));
             barY = ndiv targetHeight (Num 2);
             baseEmissive = Num 0.8;
             emissiveIntensity = nadd baseEmissive (nmul intensity (Num 3.5));
             base = baseColor (material bar);
             emissive = Color3
               (nmul (nmul (ndiv (red base) (Num 0.2)) emissiveIntensity) (Num 2.0))
               (nmul (nmul (ndiv (green base) (Num 0.2)) emissiveIntensity) (Num 2.0))
               (nmul (nmul (ndiv (blue base) (Num 0.2)) emissiveIntensity) (Num 2.0));
             bar' = bar
               \<lparr>scaling := set_vy targetHeight (scaling bar),
                position := set_vy barY (position bar),
                rotation := set_vy (nadd (vy (rotation bar))
                                     (nmul (Num 0.005) (nadd (Num 1) intensity))) (rotation bar),
                material := (material bar)\<lparr>emissiveColor := emissive\<rparr>\<rparr>;
             light' = light
               \<lparr>light_position := set_vy (nadd barY (ndiv targetHeight (Num 2))) (light_position light),
                light_intensity := nadd (Num 2.0) (nmul intensity (Num 8.0)),
                light_range := nadd (Num 12) (nmul intensity (Num 8))\<rparr>
         in Inr (s\<lparr>spectrumBars := (spectrumBars s)[i := bar'],
                    spectrumLights := (spectrumLights s)[i := light']\<rparr>)))"

definition updateSpectrumBars :: "audio_spectrum \<Rightarrow> error + audio_spectrum" where
  "updateSpectrumBars s = for_each update_bar [0..<length (spectrumBars s)] s"

text \<open>
  The bar loop of the fallback animation (\<^verbatim>\<open>createFallbackAnimation\<close>), run when no
  microphone is available; \<open>time\<close> is the closure's counter after its increment.
\<close>

definition fallback_bar :: "real \<Rightarrow> nat \<Rightarrow> audio_spectrum \<Rightarrow> error + audio_spectrum" where
  "fallback_bar time i s =
     (if i \<ge> length (spectrumLights s) then Inl TypeError
      else
        (let bar = spectrumBars s ! i;
             light = spectrumLights s ! i;
             wave = sin (time + real i * 0.5) * 0.5 + 0.5;
             intensity = Num (wave * 0.3 + 0.1);
             targetHeight = nadd (Num 0.5) (nmul (nmul intensity (maxHeight (config s))) (Num 0.5));
             barY = ndiv targetHeight (Num 2);
             base = baseColor (material bar);
             emissiveIntensity = nadd (Num 1.2) (nmul intensity (Num 2.0));
             emissive = Color3
               (nmul (nmul (ndiv (red base) (Num 0.4)) emissiveIntensity) (Num 1.8))
               (nmul (nmul (ndiv (green base) (Num 0.4)) emissiveIntensity) (Num 1.8))
               (nmul (nmul (ndiv (blue base) (Num 0.4)) emissiveIntensity) (Num 1.8));
             bar' = bar
               \<lparr>scaling := set_vy targetHeight (scaling bar),
                position := set_vy barY (position bar),
                rotation := set_vy (nadd (vy (rotation bar)) (Num 0.002)) (rotation bar),
                material := (material bar)\<lparr>emissiveColor := emissive\<rparr>\<rparr>;
             light' = light
               \<lparr>light_position := set_vy (nadd barY (ndiv targetHeight (Num 2))) (light_position light),
                light_intensity := nadd (Num 2.5) (nmul intensity (Num 4.0)),
                light_range := nadd (Num 12) (nmul intensity (Num 6))\<rparr>
         in Inr (s\<lparr>spectrumBars := (spectrumBars s)[i := bar'],
                    spectrumLights := (spectrumLights s)[i := light']\<rparr>)))"

definition fallbackBars :: "real \<Rightarrow> audio_spectrum \<Rightarrow> error + audio_spectrum" where
  "fallbackBars time s = for_each (fallback_bar time) [0..<length (spectrumBars s)] s"

subsection \<open>The particle pool\<close>

text \<open>
  \<^verbatim>\<open>getInactiveParticle\<close> returns a reference to the first pool entry that is inactive
  and owned by the band, or \<^verbatim>\<open>null\<close>; the model returns the entry's index.
\<close>

fun getInactiveParticle :: "particle_data list \<Rightarrow> nat \<Rightarrow> nat option" where
  "getInactiveParticle [] c = None"
| "getInactiveParticle (p # ps) c =
     (if \<not> active p \<and> cylinderIndex p = c then Some 0
      else map_option Suc (getInactiveParticle ps c))"

text \<open>
  \<^verbatim>\<open>emitParticle(cylinderIndex, intensity)\<close>. Without an inactive entry it returns at
  once. Otherwise it reads the bar of the band (a missing bar would make
  \<^verbatim>\<open>bar.position\<close> throw), draws five random values in the order of the source,
  and activates the entry found.
\<close>

definition emitParticle :: "nat \<Rightarrow> number \<Rightarrow> audio_spectrum \<Rightarrow> error + audio_spectrum" where
  "emitParticle c intensity s =
     (case getInactiveParticle (particlePool s) c of
        None \<Rightarrow> Inr s
      | Some k \<Rightarrow>
          if c \<ge> length (spectrumBars s) then Inl TypeError
          else
            (let particle = particlePool s ! k;
                 bar = spectrumBars s ! c;
                 topY = nadd (vy (position bar)) (nmul (vy (scaling bar)) (Num 0.5));
                 (r1, s1) = Math_random s;
                 (r2, s2) = Math_random s1;
                 (r3, s3) = Math_random s2;
                 (r4, s4) = Math_random s3;
                 (r5, s5) = Math_random s4;
                 particle' = particle
                   \<lparr>mesh := (mesh particle)
                      \<lparr>position := Vector3
                         (nadd (vx (position bar)) (Num ((r1 - 0.5) * 0.3)))
                         topY
                         (nadd (vz (position bar)) (Num ((r2 - 0.5) * 0.3))),
                       scaling := Vector3 (Num 1.0) (Num 1.0) (Num 1.0),
                       enabled := True,
                       material := (material (mesh particle))\<lparr>alpha := Num 0.8\<rparr>\<rparr>,
                    velocity := Vector3
                      (Num ((r3 - 0.5) * 0.5))
                      (Num (1.0 + r4 * 0.5))
                      (Num ((r5 - 0.5) * 0.5)),
                    life := maxLife particle,
                    active := True\<rparr>
             in Inr (s5\<lparr>particlePool := (particlePool s)[k := particle']\<rparr>)))"

text \<open>
  The body of the loop of \<^verbatim>\<open>updateParticles(deltaTime)\<close>; the elapsed time is a
  difference of two clock readings, a real. An inactive entry is skipped.
\<close>

definition update_particle :: "real \<Rightarrow> particle_data \<Rightarrow> particle_data" where
  "update_particle deltaTime particle =
     (if \<not> active particle then particle
      else
        (let life' = nsub (life particle) (Num deltaTime) in
         if nle life' (Num 0) then
           particle\<lparr>life := life', active := False,
                    mesh := (mesh particle)\<lparr>enabled := False\<rparr>\<rparr>
         else
           (let v = velocity particle;
                pos = position (mesh particle);
                pos' = Vector3 (nadd (vx pos) (nmul (vx v) (Num deltaTime)))
                               (nadd (vy pos) (nmul (vy v) (Num deltaTime)))
                               (nadd (vz pos) (nmul (vz v) (Num deltaTime)));
                vy1 = nsub (vy v) (nmul (Num 0.2) (Num deltaTime));
                v' = Vector3 (nmul (vx v) (Num 0.98)) (nmul vy1 (Num 0.98)) (nmul (vz v) (Num 0.98));
                lifeRatio = ndiv life' (maxLife particle);
                alpha' = Math_min (Num 0.8) (nmul lifeRatio (Num 1.2));
                scale = nadd (Num 0.5) (nmul lifeRatio (Num 0.5));
                emissiveIntensity = nmul lifeRatio (Num 1.2);
                base = baseColor (material (mesh particle));
                emissive = Color3
                  (nmul (ndiv (red base) (Num 0.3)) emissiveIntensity)
                  (nmul (ndiv (green base) (Num 0.3)) emissiveIntensity)
                  (nmul (ndiv (blue base) (Num 0.3)) emissiveIntensity)
            in particle
                 \<lparr>life := life', velocity := v',
                  mesh := (mesh particle)
                    \<lparr>position := pos', scaling := Vector3 scale scale scale,
                     material := (material (mesh particle))
                       \<lparr>alpha := alpha', emissiveColor := emissive\<rparr>\<rparr>\<rparr>)))"

definition updateParticles :: "real \<Rightarrow> audio_spectrum \<Rightarrow> audio_spectrum" where
  "updateParticles deltaTime s =
     s\<lparr>particlePool := map (update_particle deltaTime) (particlePool s)\<rparr>"

subsection \<open>Emission scheduling\<close>

text \<open>The interval an emission timer is reset to, from the band's intensity.\<close>

definition emissionRate :: "number \<Rightarrow> number" where
  "emissionRate intensity =
     (let baseEmissionRate = Num 0.3;
          intensityEmissionRate = Math_max (Num 0.05) (nsub (Num 0.3) (nmul intensity (Num 0.25)))
      in Math_min baseEmissionRate intensityEmissionRate)"

text \<open>
  The burst of the source: only when the intensity is above 0.7 a random value is
  drawn, and below 0.3 a second one gives the count (one or two, for random values in
  the unit interval); each burst particle is a \<^verbatim>\<open>setTimeout\<close> callback, queued
  here.
\<close>

definition schedule_burst :: "nat \<Rightarrow> number \<Rightarrow> audio_spectrum \<Rightarrow> audio_spectrum" where
  "schedule_burst i intensity s =
     (if ngt intensity (Num 0.7) then
        (let (r1, s1) = Math_random s in
         if r1 < 0.3 then
           (let (r2, s2) = Math_random s1;
                burstCount = \<lfloor>r2 * 2\<rfloor> + 1
            in s2\<lparr>timeouts := timeouts s2 @
                   map (\<lambda>burst. (burst * 50, i, intensity)) [0..<nat burstCount]\<rparr>)
         else s1)
      else s)"

text \<open>The body of the loop of \<^verbatim>\<open>updateParticleEmission(deltaTime)\<close>, for band \<open>i\<close>.\<close>

definition emission_step :: "real \<Rightarrow> nat \<Rightarrow> audio_spectrum \<Rightarrow> error + audio_spectrum" where
  "emission_step deltaTime i s =
     (let intensity = aget (smoothedData s) i;
          s1 = s\<lparr>particleEmissionTimers :=
                  aset (particleEmissionTimers s) i
                    (nsub (aget (particleEmissionTimers s) i) (Num deltaTime))\<rparr>
      in if nle (aget (particleEmissionTimers s1) i) (Num 0) then
           (case emitParticle i intensity s1 of
              Inl e \<Rightarrow> Inl e
            | Inr s2 \<Rightarrow>
                Inr (schedule_burst i intensity
                  (s2\<lparr>particleEmissionTimers :=
                        aset (particleEmissionTimers s2) i (emissionRate intensity)\<rparr>)))
         else Inr s1)"

definition updateParticleEmission :: "real \<Rightarrow> audio_spectrum \<Rightarrow> error + audio_spectrum" where
  "updateParticleEmission deltaTime s =
     for_each (emission_step deltaTime) [0..<bandCount (config s)] s"

text \<open>A pending \<^verbatim>\<open>setTimeout\<close> callback fires: it leaves the queue and emits.\<close>

definition fire_timeout :: "nat \<Rightarrow> audio_spectrum \<Rightarrow> error + audio_spectrum" where
  "fire_timeout k s =
     (if k < length (timeouts s) then
        (case timeouts s ! k of
           (delay, i, intensity) \<Rightarrow>
             emitParticle i intensity
               (s\<lparr>timeouts := take k (timeouts s) @ drop (Suc k) (timeouts s)\<rparr>))
      else Inr s)"

subsection \<open>The life of a visualizer\<close>

text \<open>
  What happens to a constructed visualizer until \<^verbatim>\<open>dispose\<close>: the microphone is
  granted and the sample array of a given number of bins is allocated, the analyser
  fills it, and the methods the two animation loops call, each an event of its own (the
  loops call them in a fixed order; every order is allowed here), and a burst callback
  fires.
\<close>

datatype event =
    AudioInitialized nat
  | GetByteFrequencyData "8 word list"
  | ProcessFrequencyBands
  | UpdateSpectrumBars
  | FallbackBars real
  | UpdateParticles real
  | UpdateParticleEmission real
  | Timeout nat

fun step :: "event \<Rightarrow> audio_spectrum \<Rightarrow> error + audio_spectrum" where
  "step (AudioInitialized frequencyBinCount) s =
     Inr (s\<lparr>frequencyData := Some (replicate frequencyBinCount 0)\<rparr>)"
| "step (GetByteFrequencyData bins) s = Inr (getByteFrequencyData bins s)"
| "step ProcessFrequencyBands s = Inr (processFrequencyBands s)"
| "step UpdateSpectrumBars s = updateSpectrumBars s"
| "step (FallbackBars time) s = fallbackBars time s"
| "step (UpdateParticles deltaTime) s = Inr (updateParticles deltaTime s)"
| "step (UpdateParticleEmission deltaTime) s = updateParticleEmission deltaTime s"
| "step (Timeout k) s = fire_timeout k s"

definition run :: "event list \<Rightarrow> audio_spectrum \<Rightarrow> error + audio_spectrum" where
  "run evs s = for_each step evs s"

text \<open>
  The frame callback \<^verbatim>\<open>animate\<close> of \<^verbatim>\<open>startVisualization\<close>: it returns at once
  without a sample array; otherwise the analyser fills the array and the five methods run
  in this order. \<open>before_emission\<close> is the frame up to the emission update,
  \<open>animate_events\<close> the frame as events, \<open>frames\<close> a number of frames on the same
  input.
\<close>

definition before_emission ::
  "8 word list \<Rightarrow> real \<Rightarrow> audio_spectrum \<Rightarrow> error + audio_spectrum" where
  "before_emission bins deltaTime s =
     (let s1 = getByteFrequencyData bins s;
          s2 = processFrequencyBands s1
      in case updateSpectrumBars s2 of
           Inl e \<Rightarrow> Inl e
         | Inr s3 \<Rightarrow> Inr (updateParticles deltaTime s3))"

definition animate :: "8 word list \<Rightarrow> real \<Rightarrow> audio_spectrum \<Rightarrow> error + audio_spectrum" where
  "animate bins deltaTime s =
     (if frequencyData s = None then Inr s
      else
        (case before_emission bins deltaTime s of
           Inl e \<Rightarrow> Inl e
         | Inr s4 \<Rightarrow> updateParticleEmission deltaTime s4))"

definition animate_events :: "8 word list \<Rightarrow> real \<Rightarrow> event list" where
  "animate_events bins deltaTime =
     [GetByteFrequencyData bins, ProcessFrequencyBands, UpdateSpectrumBars,
      UpdateParticles deltaTime, UpdateParticleEmission deltaTime]"

fun frames :: "nat \<Rightarrow> 8 word list \<Rightarrow> real \<Rightarrow> audio_spectrum \<Rightarrow> error + audio_spectrum" where
  "frames 0 bins deltaTime s = Inr s"
| "frames (Suc k) bins deltaTime s =
     (case animate bins deltaTime s of
        Inl e \<Rightarrow> Inl e
      | Inr s' \<Rightarrow> frames k bins deltaTime s')"

subsection \<open>The class invariant\<close>

text \<open>
  What every method above keeps true of a constructed visualizer: the configuration
  and the lengths of the per-band arrays do not change, pool entry \<open>k\<close> is owned by
  band \<open>k div 10\<close>, an entry is active exactly when its mesh is enabled, it lives three
  seconds, its remaining life is a real, and no smoothed intensity is negative.
\<close>

definition particle_ok :: "particle_data \<Rightarrow> bool" where
  "particle_ok p \<longleftrightarrow> active p = enabled (mesh p) \<and> maxLife p = Num 3 \<and> life p \<noteq> NaN"

definition pool_ok :: "nat \<Rightarrow> particle_data list \<Rightarrow> bool" where
  "pool_ok n pool \<longleftrightarrow>
     map cylinderIndex pool =
       map (\<lambda>k. k div maxParticlesPerCylinder) [0..<n * maxParticlesPerCylinder]
     \<and> list_all particle_ok pool"

definition invariant :: "audio_spectrum_config \<Rightarrow> audio_spectrum \<Rightarrow> bool" where
  "invariant cfg s \<longleftrightarrow>
     config s = cfg \<and>
     length (smoothedData s) = bandCount cfg \<and>
     length (particleEmissionTimers s) = bandCount cfg \<and>
     length (spectrumBars s) = bandCount cfg \<and>
     length (spectrumLights s) = bandCount cfg \<and>
     pool_ok (bandCount cfg) (particlePool s) \<and>
     list_all (\<lambda>v. \<not> nlt v (Num 0)) (smoothedData s)"

text \<open>The number of active pool entries owned by band \<open>i\<close>.\<close>

definition active_count :: "nat \<Rightarrow> particle_data list \<Rightarrow> nat" where
  "active_count i pool = length (filter (\<lambda>p. active p \<and> cylinderIndex p = i) pool)"

subsection \<open>Auxiliary notions and small inputs\<close>

text \<open>The configuration the scene constructs its visualizer with (\<^verbatim>\<open>setupAudioSpectrum\<close>).\<close>

definition demo_config :: audio_spectrum_config where
  "demo_config = \<lparr>bandCount = 8, radius = Num 12, maxHeight = Num 4, smoothingFactor = Num 0.85\<rparr>"

text \<open>
  Small inputs: a tape on which every random value is one half, a visualizer of two
  bands, and the state after the analyser has filled a new sample array with the bins
  given.
\<close>

definition demo_tape :: "nat \<Rightarrow> real" where
  "demo_tape k = 1 / 2"

definition two_bands :: audio_spectrum_config where
  "two_bands = demo_config\<lparr>bandCount := 2\<rparr>"

definition sampled :: "8 word list \<Rightarrow> audio_spectrum \<Rightarrow> audio_spectrum" where
  "sampled bins s =
     getByteFrequencyData bins (s\<lparr>frequencyData := Some (replicate (length bins) 0)\<rparr>)"

text \<open>
  The invariant of the band aggregator when every sample array has at least as many
  bins as there are bands, and the two fields only the aggregator and the analyser write.
\<close>

definition bands_ok :: "audio_spectrum_config \<Rightarrow> audio_spectrum \<Rightarrow> bool" where
  "bands_ok cfg s \<longleftrightarrow>
     invariant cfg s \<and> list_all in_unit (smoothedData s) \<and>
     (case frequencyData s of None \<Rightarrow> True | Some fd \<Rightarrow> bandCount cfg \<le> length fd)"

definition band_fields :: "audio_spectrum \<Rightarrow> number list \<times> 8 word list option" where
  "band_fields s = (smoothedData s, frequencyData s)"

text \<open>More bands than the analyser of the source has bins (its FFT size is 256, so 128 bins).\<close>

definition too_many_bands :: audio_spectrum_config where
  "too_many_bands = demo_config\<lparr>bandCount := 129\<rparr>"

text \<open>
  A band is due in an emission update when its timer, once the elapsed time is taken
  off, is zero or below; it has an inactive entry when \<open>getInactiveParticle\<close> finds one.
\<close>

definition due :: "real \<Rightarrow> nat \<Rightarrow> audio_spectrum \<Rightarrow> bool" where
  "due deltaTime i s \<longleftrightarrow>
     nle (nsub (aget (particleEmissionTimers s) i) (Num deltaTime)) (Num 0)"

definition has_inactive :: "nat \<Rightarrow> audio_spectrum \<Rightarrow> bool" where
  "has_inactive i s \<longleftrightarrow> getInactiveParticle (particlePool s) i \<noteq> None"

text \<open>
  States of the visualizer of two bands: after its first emission update; and, on loud
  input with frames a quarter of a second apart, after ten frames and the part of the
  eleventh that precedes its emission update, when all ten entries of each band are
  active. The events that lead there, and what is looked at in that state.
\<close>

definition first_frame :: audio_spectrum where
  "first_frame = projr (updateParticleEmission (1 / 60) (AudioSpectrum two_bands demo_tape))"

definition loud :: "8 word list" where
  "loud = [255, 255, 255, 255]"

definition pool_full :: audio_spectrum where
  "pool_full =
     projr (before_emission loud (1 / 4)
       (projr (frames 10 loud (1 / 4)
          ((AudioSpectrum two_bands demo_tape)\<lparr>frequencyData := Some [0, 0, 0, 0]\<rparr>))))"

definition full_pool_events :: "event list" where
  "full_pool_events =
     AudioInitialized 4 # concat (replicate 10 (animate_events loud (1 / 4))) @
     [GetByteFrequencyData loud, ProcessFrequencyBands, UpdateSpectrumBars, UpdateParticles (1 / 4)]"

definition pool_summary :: "audio_spectrum \<Rightarrow> nat \<times> bool \<times> bool \<times> nat list" where
  "pool_summary s =
     (active_count 0 (particlePool s),
      list_all (\<lambda>p. active p \<or> cylinderIndex p \<noteq> 0) (particlePool s),
      due (1 / 4) 0 s,
      map cylinderIndex (particlePool s))"

section \<open>The VR session data (class VRSceneManager)\<close>

subsection \<open>Objects and references\<close>

text \<open>
  \<^verbatim>\<open>getVRSessionData\<close> copies an object whose fields refer to other objects, so the
  session data live in a store: an address is an index into the list of all objects
  allocated so far, and allocation appends. The objects are the plain
  \<^verbatim>\<open>{ x, y, z }\<close> triples, the \<^verbatim>\<open>VRControllerData\<close> objects, arrays of
  references, and \<^verbatim>\<open>VRSessionData\<close> objects.
\<close>

type_synonym addr = nat

type_synonym xyz = "number \<times> number \<times> number"

record vr_session_data =
  isActive :: bool
  isSupported :: bool
  controllers :: addr
  headPosition :: addr
  headRotation :: addr

datatype obj =
    XYZ number number number
  | ControllerData string addr addr bool
  | ArrayObj "addr list"
  | SessionData vr_session_data

definition alloc :: "obj \<Rightarrow> obj list \<Rightarrow> addr \<times> obj list" where
  "alloc ob h = (length h, h @ [ob])"

text \<open>
  The manager: the store, the reference held in the private field
  \<^verbatim>\<open>vrSessionData\<close>, the field \<^verbatim>\<open>headTrackingInterval\<close> (a timer id or
  \<^verbatim>\<open>null\<close>), and the environment's running interval timers with the next id it hands
  out (ids are positive).
\<close>

record vr_scene_manager =
  heap :: "obj list"
  vrSessionData :: addr
  headTrackingInterval :: "nat option"
  intervals :: "nat list"
  next_interval_id :: nat

definition the_session :: "vr_scene_manager \<Rightarrow> vr_session_data option" where
  "the_session s =
     (if vrSessionData s < length (heap s) then
        (case heap s ! vrSessionData s of SessionData d \<Rightarrow> Some d | _ \<Rightarrow> None)
      else None)"

text \<open>An assignment \<^verbatim>\<open>this.vrSessionData.field = value\<close>.\<close>

definition assign_session ::
  "(vr_session_data \<Rightarrow> vr_session_data) \<Rightarrow> addr \<Rightarrow> obj list \<Rightarrow> obj list" where
  "assign_session f a h =
     (if a < length h then
        (case h ! a of SessionData d \<Rightarrow> h[a := SessionData (f d)] | _ \<Rightarrow> h)
      else h)"

text \<open>The constructor's object literal, with \<^verbatim>\<open>setupVR\<close> still pending.\<close>

definition VRSceneManager :: vr_scene_manager where
  "VRSceneManager =
     (let (cs, h1) = alloc (ArrayObj []) [];
          (hp, h2) = alloc (XYZ (Num 0) (Num 0) (Num 0)) h1;
          (hr, h3) = alloc (XYZ (Num 0) (Num 0) (Num 0)) h2;
          (d, h4) = alloc (SessionData
             \<lparr>isActive = False, isSupported = False, controllers = cs,
              headPosition = hp, headRotation = hr\<rparr>) h3
      in \<lparr>heap = h4, vrSessionData = d, headTrackingInterval = None, intervals = [],
          next_interval_id = 1\<rparr>)"

subsection \<open>Head tracking\<close>

text \<open>What the XR runtime shows at one poll: the camera, if any, and the controllers.\<close>

record xr_controller =
  pointer :: "(vector3 \<times> vector3) option"
  inputSource_connected :: bool

record xr_frame =
  camera :: "(vector3 \<times> vector3) option"
  input_controllers :: "xr_controller list option"

text \<open>\<^verbatim>\<open>Math.round(v * 100) / 100\<close> and the same of \<^verbatim>\<open>v * 180 / Math.PI\<close>.\<close>

definition round2 :: "number \<Rightarrow> number" where
  "round2 v = ndiv (Math_round (nmul v (Num 100))) (Num 100)"

definition degrees :: "number \<Rightarrow> number" where
  "degrees v = ndiv (nmul v (Num 180)) (Num pi)"

text \<open>\<^verbatim>\<open>v || 0\<close>: zero and \<^verbatim>\<open>NaN\<close> are falsy, and so is the \<^verbatim>\<open>undefined\<close> of a missing pointer.\<close>

fun or_zero :: "number option \<Rightarrow> number" where
  "or_zero (Some (Num a)) = Num a"
| "or_zero _ = Num 0"

text \<open>The decimal numeral of an index, for the template \<^verbatim>\<open>`controller_${index}`\<close>.\<close>

definition digit :: "nat \<Rightarrow> char" where
  "digit d = ''0123456789'' ! d"

fun string_of_nat :: "nat \<Rightarrow> string" where
  "string_of_nat n =
     (if 10 \<le> n then string_of_nat (n div 10) @ [digit (n mod 10)] else [digit n])"

text \<open>The callback of \<^verbatim>\<open>map\<close> in the poll: the new controller object and its two triples.\<close>

definition controller_data :: "nat \<Rightarrow> xr_controller \<Rightarrow> obj list \<Rightarrow> addr \<times> obj list" where
  "controller_data index controller h =
     (let p = map_option fst (pointer controller);
          q = map_option snd (pointer controller);
          (pos, h1) = alloc (XYZ
             (round2 (or_zero (map_option vx p)))
             (round2 (or_zero (map_option vy p)))
             (round2 (or_zero (map_option vz p)))) h;
          (rot, h2) = alloc (XYZ
             (round2 (degrees (or_zero (map_option vx q))))
             (round2 (degrees (or_zero (map_option vy q))))
             (round2 (degrees (or_zero (map_option vz q))))) h1
      in alloc (ControllerData (''controller_'' @ string_of_nat index) pos rot
                  (inputSource_connected controller)) h2)"

fun map_controllers :: "nat \<Rightarrow> xr_controller list \<Rightarrow> obj list \<Rightarrow> addr list \<times> obj list" where
  "map_controllers index [] h = ([], h)"
| "map_controllers index (c # cs) h =
     (let (a, h1) = controller_data index c h;
          (as, h2) = map_controllers (Suc index) cs h1
      in (a # as, h2))"

text \<open>
  The three assignments both the poll and \<^verbatim>\<open>stopHeadTracking\<close> make, each of a newly
  allocated object: \<^verbatim>\<open>this.vrSessionData.headPosition = { x, y, z }\<close>, the same for
  \<^verbatim>\<open>headRotation\<close>, and \<^verbatim>\<open>this.vrSessionData.controllers = [...]\<close>.
\<close>

definition assign_headPosition :: "xyz \<Rightarrow> addr \<Rightarrow> obj list \<Rightarrow> obj list" where
  "assign_headPosition v d h =
     (case v of (x, y, z) \<Rightarrow>
        (let (p, h1) = alloc (XYZ x y z) h
         in assign_session (\<lambda>r. r\<lparr>headPosition := p\<rparr>) d h1))"

definition assign_headRotation :: "xyz \<Rightarrow> addr \<Rightarrow> obj list \<Rightarrow> obj list" where
  "assign_headRotation v d h =
     (case v of (x, y, z) \<Rightarrow>
        (let (p, h1) = alloc (XYZ x y z) h
         in assign_session (\<lambda>r. r\<lparr>headRotation := p\<rparr>) d h1))"

definition assign_controllers :: "addr list \<Rightarrow> addr \<Rightarrow> obj list \<Rightarrow> obj list" where
  "assign_controllers as d h =
     (let (arr, h1) = alloc (ArrayObj as) h
      in assign_session (\<lambda>r. r\<lparr>controllers := arr\<rparr>) d h1)"

text \<open>The callback \<^verbatim>\<open>startHeadTracking\<close> gives to \<^verbatim>\<open>setInterval\<close>.\<close>

definition tracking_tick :: "xr_frame \<Rightarrow> vr_scene_manager \<Rightarrow> vr_scene_manager" where
  "tracking_tick xr s =
     (case camera xr of
        None \<Rightarrow> s
      | Some (cpos, crot) \<Rightarrow>
          (let d = vrSessionData s;
               h1 = assign_headPosition
                      (round2 (vx cpos), round2 (vy cpos), round2 (vz cpos)) d (heap s);
               h2 = assign_headRotation
                      (round2 (degrees (vx crot)), round2 (degrees (vy crot)),
                       round2 (degrees (vz crot))) d h1
           in case input_controllers xr of
                None \<Rightarrow> s\<lparr>heap := h2\<rparr>
              | Some cs \<Rightarrow>
                  (let (as, h3) = map_controllers 0 cs h2
                   in s\<lparr>heap := assign_controllers as d h3\<rparr>)))"

text \<open>A timer id is truthy when it is not zero.\<close>

definition clear_if_set :: "vr_scene_manager \<Rightarrow> vr_scene_manager" where
  "clear_if_set s =
     (case headTrackingInterval s of
        Some t \<Rightarrow> if t \<noteq> 0 then s\<lparr>intervals := removeAll t (intervals s)\<rparr> else s
      | None \<Rightarrow> s)"

definition startHeadTracking :: "vr_scene_manager \<Rightarrow> vr_scene_manager" where
  "startHeadTracking s =
     (let s1 = clear_if_set s;
          t = next_interval_id s1
      in s1\<lparr>intervals := t # intervals s1, next_interval_id := Suc t,
            headTrackingInterval := Some t\<rparr>)"

definition stopHeadTracking :: "vr_scene_manager \<Rightarrow> vr_scene_manager" where
  "stopHeadTracking s =
     (let s1 = (case headTrackingInterval s of
                  Some t \<Rightarrow>
                    if t \<noteq> 0 then s\<lparr>intervals := removeAll t (intervals s),
                                       headTrackingInterval := None\<rparr>
                    else s
                | None \<Rightarrow> s);
          d = vrSessionData s1;
          h1 = assign_headPosition (Num 0, Num 0, Num 0) d (heap s1);
          h2 = assign_headRotation (Num 0, Num 0, Num 0) d h1
      in s1\<lparr>heap := assign_controllers [] d h2\<rparr>)"

text \<open>The handler \<^verbatim>\<open>setupVR\<close> adds to \<^verbatim>\<open>onStateChangedObservable\<close>.\<close>

datatype WebXRState = ENTERING_XR | EXITING_XR | IN_XR | NOT_IN_XR

definition onStateChanged :: "WebXRState \<Rightarrow> vr_scene_manager \<Rightarrow> vr_scene_manager" where
  "onStateChanged state s =
     (let s1 = s\<lparr>heap := assign_session (\<lambda>r. r\<lparr>isActive := (state = IN_XR)\<rparr>)
                            (vrSessionData s) (heap s)\<rparr>
      in if state = IN_XR then startHeadTracking s1
         else if state = NOT_IN_XR then stopHeadTracking s1
         else s1)"

text \<open>
  \<^verbatim>\<open>getVRSessionData\<close>: the spread \<^verbatim>\<open>{ ...this.vrSessionData }\<close> allocates one object
  and copies the five fields, references included; the result is the new object's
  address. The field \<^verbatim>\<open>vrSessionData\<close> always refers to a session object (see
  \<open>vr_inv\<close> below), so the second branch is never taken.
\<close>

definition getVRSessionData :: "vr_scene_manager \<Rightarrow> addr \<times> vr_scene_manager" where
  "getVRSessionData s =
     (case the_session s of
        Some d \<Rightarrow> (let (a, h) = alloc (SessionData d) (heap s) in (a, s\<lparr>heap := h\<rparr>))
      | None \<Rightarrow> (vrSessionData s, s))"

subsection \<open>What the manager does over time, and what a reader of a snapshot can do\<close>

datatype vr_event =
    SetupVR bool
  | StateChanged WebXRState
  | Tick xr_frame
  | GetVRSessionData
  | Dispose

fun vr_step :: "vr_event \<Rightarrow> vr_scene_manager \<Rightarrow> vr_scene_manager" where
  "vr_step (SetupVR ok) s =
     s\<lparr>heap := assign_session (\<lambda>r. r\<lparr>isSupported := ok\<rparr>) (vrSessionData s) (heap s)\<rparr>"
| "vr_step (StateChanged state) s = onStateChanged state s"
| "vr_step (Tick xr) s = (if intervals s = [] then s else tracking_tick xr s)"
| "vr_step GetVRSessionData s = snd (getVRSessionData s)"
| "vr_step Dispose s = stopHeadTracking s"

definition vr_run :: "vr_event list \<Rightarrow> vr_scene_manager \<Rightarrow> vr_scene_manager" where
  "vr_run evs s = fold vr_step evs s"

text \<open>The value of a snapshot: what a reader sees when following its references.\<close>

definition read_xyz :: "obj list \<Rightarrow> addr \<Rightarrow> xyz option" where
  "read_xyz h a =
     (if a < length h then (case h ! a of XYZ x y z \<Rightarrow> Some (x, y, z) | _ \<Rightarrow> None) else None)"

definition read_controller :: "obj list \<Rightarrow> addr \<Rightarrow> (string \<times> xyz \<times> xyz \<times> bool) option" where
  "read_controller h a =
     (if a < length h then
        (case h ! a of
           ControllerData name p q c \<Rightarrow>
             (case (read_xyz h p, read_xyz h q) of
                (Some pv, Some qv) \<Rightarrow> Some (name, pv, qv, c)
              | _ \<Rightarrow> None)
         | _ \<Rightarrow> None)
      else None)"

fun read_all :: "('a \<Rightarrow> 'b option) \<Rightarrow> 'a list \<Rightarrow> 'b list option" where
  "read_all f [] = Some []"
| "read_all f (x # xs) =
     (case (f x, read_all f xs) of (Some y, Some ys) \<Rightarrow> Some (y # ys) | _ \<Rightarrow> None)"

definition read_controllers ::
  "obj list \<Rightarrow> addr \<Rightarrow> (string \<times> xyz \<times> xyz \<times> bool) list option" where
  "read_controllers h a =
     (if a < length h then
        (case h ! a of ArrayObj as \<Rightarrow> read_all (read_controller h) as | _ \<Rightarrow> None)
      else None)"

record snapshot_value =
  sv_isActive :: bool
  sv_isSupported :: bool
  sv_controllers :: "(string \<times> xyz \<times> xyz \<times> bool) list"
  sv_headPosition :: xyz
  sv_headRotation :: xyz

definition read_snapshot :: "obj list \<Rightarrow> addr \<Rightarrow> snapshot_value option" where
  "read_snapshot h a =
     (if a < length h then
        (case h ! a of
           SessionData d \<Rightarrow>
             (case (read_controllers h (controllers d), read_xyz h (headPosition d),
                    read_xyz h (headRotation d)) of
                (Some cs, Some hp, Some hr) \<Rightarrow>
                  Some \<lparr>sv_isActive = isActive d, sv_isSupported = isSupported d,
                        sv_controllers = cs, sv_headPosition = hp, sv_headRotation = hr\<rparr>
              | _ \<Rightarrow> None)
         | _ \<Rightarrow> None)
      else None)"

text \<open>
  Two things a holder of a snapshot reference can do: assign a field of the snapshot
  object itself (\<^verbatim>\<open>snapshot.isActive = b\<close>, \<^verbatim>\<open>snapshot.headPosition = p\<close>), which is
  \<open>assign_session\<close> at the snapshot's address, and write into an object the snapshot
  refers to (\<^verbatim>\<open>snapshot.headPosition.x = v\<close>).
\<close>

definition write_headPosition_x :: "addr \<Rightarrow> number \<Rightarrow> obj list \<Rightarrow> obj list" where
  "write_headPosition_x a v h =
     (if a < length h then
        (case h ! a of
           SessionData d \<Rightarrow>
             (if headPosition d < length h then
                (case h ! headPosition d of
                   XYZ x y z \<Rightarrow> h[headPosition d := XYZ v y z]
                 | _ \<Rightarrow> h)
              else h)
         | _ \<Rightarrow> h)
      else h)"

subsection \<open>Invariant of the manager, and how the store may change\<close>

text \<open>
  \<open>heap_grows W h h'\<close>: the store \<open>h'\<close> has every object of \<open>h\<close> unchanged, except
  that session objects at the addresses in \<open>W\<close> may have been assigned to, and possibly
  more objects. \<open>vr_inv\<close>: the session object and all it refers to can be read, and the
  only running interval timer is the one the manager remembers.
\<close>

definition heap_grows :: "addr set \<Rightarrow> obj list \<Rightarrow> obj list \<Rightarrow> bool" where
  "heap_grows W h h' \<longleftrightarrow>
     length h \<le> length h' \<and>
     (\<forall>p<length h. h' ! p = h ! p \<or>
        (p \<in> W \<and> (\<exists>d. h ! p = SessionData d) \<and> (\<exists>d. h' ! p = SessionData d)))"

definition vr_inv :: "vr_scene_manager \<Rightarrow> bool" where
  "vr_inv s \<longleftrightarrow>
     read_snapshot (heap s) (vrSessionData s) \<noteq> None \<and> 0 < next_interval_id s \<and>
     (case headTrackingInterval s of
        None \<Rightarrow> intervals s = []
      | Some t \<Rightarrow> intervals s = [t] \<and> 0 < t \<and> t < next_interval_id s)"

definition zero_xyz :: xyz where
  "zero_xyz = (Num 0, Num 0, Num 0)"

text \<open>
  Small inputs: what the runtime shows at one poll (a camera and one controller without
  a pointer), the manager after VR was set up, a session entered and that poll, and the
  snapshot taken from a new manager.
\<close>

definition demo_frame :: xr_frame where
  "demo_frame =
     \<lparr>camera = Some (Vector3 (Num 1.234) (Num 1.6) (Num (- 0.5)),
                     Vector3 (Num 0) (Num 0) (Num 0)),
      input_controllers = Some [\<lparr>pointer = None, inputSource_connected = True\<rparr>]\<rparr>"

definition tracking :: vr_scene_manager where
  "tracking = vr_run [SetupVR True, StateChanged IN_XR, Tick demo_frame] VRSceneManager"

definition shared_snapshot :: "addr \<times> vr_scene_manager" where
  "shared_snapshot = getVRSessionData VRSceneManager"

section \<open>Verification of the visualizer\<close>

subsection \<open>Band aggregation\<close>

lemma fold_process_band:
  "k \<le> length (smoothedData s) \<Longrightarrow>
   fold (process_band fd) [0..<k] s =
   s\<lparr>smoothedData :=
       map (\<lambda>j. if j < k then smooth (smoothedData s ! j) (band_normalized fd (bandCount (config s)) j)
                else smoothedData s ! j) [0..<length (smoothedData s)]\<rparr>"
proof (induction k)
  case 0
  then show ?case by (simp add: map_nth)
next
  case (Suc k)
  let ?M = "map (\<lambda>j. if j < k then smooth (smoothedData s ! j) (band_normalized fd (bandCount (config s)) j)
                else smoothedData s ! j) [0..<length (smoothedData s)]"
  from Suc have k: "k < length (smoothedData s)" and ih: "fold (process_band fd) [0..<k] s = s\<lparr>smoothedData := ?M\<rparr>"
    by simp_all
  have "fold (process_band fd) [0..<Suc k] s = process_band fd k (s\<lparr>smoothedData := ?M\<rparr>)"
    using ih by simp
  also have "\<dots> = s\<lparr>smoothedData := ?M[k := smooth (smoothedData s ! k) (band_normalized fd (bandCount (config s)) k)]\<rparr>"
    using k by (simp add: process_band_def aget_def aset_def)
  also have "?M[k := smooth (smoothedData s ! k) (band_normalized fd (bandCount (config s)) k)] =
       map (\<lambda>j. if j < Suc k then smooth (smoothedData s ! j) (band_normalized fd (bandCount (config s)) j)
                else smoothedData s ! j) [0..<length (smoothedData s)]"
    using k by (auto simp: less_Suc_eq nth_list_update intro!: nth_equalityI)
  finally show ?case .
qed

lemma processFrequencyBands_Some:
  assumes "frequencyData s = Some fd" "length (smoothedData s) = bandCount (config s)"
  shows "processFrequencyBands s =
     s\<lparr>smoothedData :=
       map (\<lambda>j. smooth (smoothedData s ! j) (band_normalized fd (bandCount (config s)) j))
         [0..<bandCount (config s)]\<rparr>"
  using assms fold_process_band [of "bandCount (config s)" s fd]
  by (simp add: processFrequencyBands_def)

lemma band_average_Num:
  assumes "0 < n" "n \<le> length fd" "i < n"
  shows "band_average fd n i =
     Num (real (\<Sum>j\<leftarrow>[i * (length fd div n)..<i * (length fd div n) + length fd div n]. unat (fd ! j))
          / real (length fd div n))"
proof -
  let ?w = "length fd div n"
  have w: "0 < ?w" using assms by (simp add: div_greater_zero_iff)
  have "Suc i * ?w \<le> n * ?w" using assms by (intro mult_le_mono1) simp
  also have "\<dots> \<le> length fd" by simp
  finally have "i * ?w + ?w \<le> length fd" by simp
  then have "min (i * ?w + ?w) (length fd) = i * ?w + ?w" by simp
  then show ?thesis using w by (simp add: band_average_def bandsPerBar_def Let_def)
qed

lemma band_average_NaN:
  "length fd < n \<Longrightarrow> band_average fd n i = NaN"
  by (simp add: band_average_def bandsPerBar_def Let_def)

lemma band_normalized_unit:
  assumes "0 < n" "n \<le> length fd" "i < n"
  shows "\<exists>x. band_normalized fd n i = Num x \<and> 0 \<le> x \<and> x \<le> 1"
  using assms by (simp add: band_normalized_def band_average_Num)

subsection \<open>The invariant holds in every state a visualizer reaches\<close>

lemma for_each_invariant:
  assumes "\<And>i s. i \<in> set is \<Longrightarrow> P s \<Longrightarrow> \<exists>s'. body i s = Inr s' \<and> P s'"
    and "P s"
  shows "\<exists>s'. for_each body is s = Inr s' \<and> P s'"
  using assms
proof (induction "is" arbitrary: s)
  case Nil
  then show ?case by simp
next
  case (Cons i "is")
  from Cons.prems obtain s1 where s1: "body i s = Inr s1" "P s1" by (meson list.set_intros(1))
  from Cons.IH [of s1] Cons.prems(1) s1(2) obtain s' where "for_each body is s1 = Inr s'" "P s'"
    by (meson list.set_intros(2))
  with s1 show ?case by simp
qed

lemma invariant_init: "invariant cfg (AudioSpectrum cfg tape)"
  by (simp add: invariant_def AudioSpectrum_def initializeParticlePool_def createSpectrumBars_def
      Let_def pool_ok_def list_all_iff particle_ok_def create_particle_def new_mesh_def comp_def)

lemma invariant_getByteFrequencyData:
  "invariant cfg s \<Longrightarrow> invariant cfg (getByteFrequencyData bins s)"
  by (auto simp: invariant_def getByteFrequencyData_def split: option.splits)

lemma invariant_AudioInitialized:
  "invariant cfg s \<Longrightarrow> invariant cfg (s\<lparr>frequencyData := Some fd\<rparr>)"
  by (auto simp: invariant_def)

lemma sum_list_upt_empty:
  "e \<le> s \<Longrightarrow> real (\<Sum>j\<leftarrow>[s..<e]. f j) = 0"
  by simp

lemma ndiv_nonneg:
  "0 \<le> a \<Longrightarrow> (b \<le> 0 \<Longrightarrow> a = 0) \<Longrightarrow> \<not> nlt (ndiv (Num a) (Num b)) (Num 0)"
  by (cases "b \<le> 0") (auto simp: not_le divide_less_0_iff)

lemma band_average_nonneg: "\<not> nlt (band_average fd n i) (Num 0)"
  unfolding band_average_def Let_def
proof (rule ndiv_nonneg)
  let ?s = "i * bandsPerBar fd n"
  let ?e = "min (?s + bandsPerBar fd n) (length fd)"
  show "0 \<le> real (\<Sum>j\<leftarrow>[?s..<?e]. unat (fd ! j))" by simp
  assume "real_of_int (int ?e - int ?s) \<le> 0"
  then have "?e \<le> ?s" by linarith
  then show "real (\<Sum>j\<leftarrow>[?s..<?e]. unat (fd ! j)) = 0"
    by (rule sum_list_upt_empty)
qed

lemma band_normalized_cases:
  "band_normalized fd n i = NaN \<or> (\<exists>x. band_normalized fd n i = Num x \<and> 0 \<le> x \<and> x \<le> 1)"
proof (cases "band_average fd n i")
  case NaN
  then show ?thesis by (simp add: band_normalized_def)
next
  case (Num a)
  with band_average_nonneg [of fd n i] have "0 \<le> a" by simp
  with Num show ?thesis by (simp add: band_normalized_def)
qed

lemma smooth_nonneg:
  "\<not> nlt v (Num 0) \<Longrightarrow> \<not> nlt (smooth v (band_normalized fd n i)) (Num 0)"
  using band_normalized_cases [of fd n i]
  by (cases v) (auto simp: smooth_def)

lemma invariant_processFrequencyBands:
  assumes "invariant cfg s"
  shows "invariant cfg (processFrequencyBands s)"
proof (cases "frequencyData s")
  case None
  with assms show ?thesis by (simp add: processFrequencyBands_def)
next
  case (Some fd)
  from assms have len: "length (smoothedData s) = bandCount (config s)"
    by (simp add: invariant_def)
  show ?thesis
    unfolding processFrequencyBands_Some [OF Some len]
    using assms
    by (auto simp: invariant_def list_all_iff intro!: smooth_nonneg)
qed

lemma getInactiveParticle_Some:
  "getInactiveParticle ps c = Some k \<Longrightarrow>
   k < length ps \<and> \<not> active (ps ! k) \<and> cylinderIndex (ps ! k) = c"
proof (induction ps arbitrary: k)
  case Nil
  then show ?case by simp
next
  case (Cons p ps)
  then show ?case by (cases k) (auto split: if_splits)
qed

lemma getInactiveParticle_None:
  "getInactiveParticle ps c = None \<longleftrightarrow> (\<forall>p\<in>set ps. active p \<or> cylinderIndex p \<noteq> c)"
  by (induction ps) auto

lemma pool_ok_index:
  assumes "pool_ok n pool" "k < length pool"
  shows "cylinderIndex (pool ! k) = k div maxParticlesPerCylinder" "k < n * maxParticlesPerCylinder"
    "cylinderIndex (pool ! k) < n"
proof -
  from assms(1) have m: "map cylinderIndex pool = map (\<lambda>k. k div maxParticlesPerCylinder) [0..<n * maxParticlesPerCylinder]"
    by (simp add: pool_ok_def)
  then have "length pool = n * maxParticlesPerCylinder" using length_map by (metis length_upt minus_nat.diff_0)
  with assms(2) show k: "k < n * maxParticlesPerCylinder" by simp
  have "cylinderIndex (pool ! k) = map cylinderIndex pool ! k" using assms(2) by simp
  also have "\<dots> = k div maxParticlesPerCylinder" using k by (simp add: m)
  finally show c: "cylinderIndex (pool ! k) = k div maxParticlesPerCylinder" .
  show "cylinderIndex (pool ! k) < n" using k
    by (simp add: c maxParticlesPerCylinder_def less_mult_imp_div_less)
qed

lemma pool_ok_update:
  assumes "pool_ok n pool" "k < length pool" "cylinderIndex p = cylinderIndex (pool ! k)" "particle_ok p"
  shows "pool_ok n (pool[k := p])"
proof -
  from assms(1) have m: "map cylinderIndex pool = map (\<lambda>k. k div maxParticlesPerCylinder) [0..<n * maxParticlesPerCylinder]"
    and ok: "\<forall>p\<in>set pool. particle_ok p"
    by (simp_all add: pool_ok_def list_all_iff)
  have eq: "map cylinderIndex (pool[k := p]) = map cylinderIndex pool"
    using assms(2,3) by (simp add: map_update list_update_same_conv)
  have la: "list_all particle_ok (pool[k := p])"
    using ok assms(4) set_update_subset_insert [of pool k p] by (auto simp: list_all_iff)
  show ?thesis unfolding pool_ok_def using eq m la by metis
qed

lemma pool_ok_map:
  assumes "pool_ok n pool" "\<And>p. particle_ok p \<Longrightarrow> particle_ok (f p) \<and> cylinderIndex (f p) = cylinderIndex p"
  shows "pool_ok n (map f pool)"
proof -
  from assms(1) have m: "map cylinderIndex pool = map (\<lambda>k. k div maxParticlesPerCylinder) [0..<n * maxParticlesPerCylinder]"
    and ok: "\<forall>p\<in>set pool. particle_ok p"
    by (simp_all add: pool_ok_def list_all_iff)
  from ok have eq: "map cylinderIndex (map f pool) = map cylinderIndex pool"
    using assms(2) by (simp add: map_eq_conv)
  from ok have la: "list_all particle_ok (map f pool)"
    using assms(2) by (simp add: list_all_iff)
  show ?thesis unfolding pool_ok_def using eq m la by metis
qed

lemma Math_random_fields [simp]:
  "config (snd (Math_random s)) = config s"
  "smoothedData (snd (Math_random s)) = smoothedData s"
  "particleEmissionTimers (snd (Math_random s)) = particleEmissionTimers s"
  "spectrumBars (snd (Math_random s)) = spectrumBars s"
  "spectrumLights (snd (Math_random s)) = spectrumLights s"
  "particlePool (snd (Math_random s)) = particlePool s"
  "timeouts (snd (Math_random s)) = timeouts s"
  "frequencyData (snd (Math_random s)) = frequencyData s"
  by (simp_all add: Math_random_def)

lemma invariant_emitParticle:
  assumes "invariant cfg s"
  shows "\<exists>s'. emitParticle c v s = Inr s' \<and> invariant cfg s'"
proof (cases "getInactiveParticle (particlePool s) c")
  case None
  with assms show ?thesis by (simp add: emitParticle_def)
next
  case (Some k)
  from assms have pool: "pool_ok (bandCount cfg) (particlePool s)"
    and bars: "length (spectrumBars s) = bandCount cfg"
    by (simp_all add: invariant_def)
  from getInactiveParticle_Some [OF Some]
  have k: "k < length (particlePool s)" and c: "cylinderIndex (particlePool s ! k) = c" by simp_all
  from pool_ok_index(3) [OF pool k] c bars have cb: "c < length (spectrumBars s)" by simp
  from pool k have ok: "particle_ok (particlePool s ! k)"
    by (simp add: pool_ok_def list_all_length)
  show ?thesis
    using Some cb assms
    apply (simp add: emitParticle_def Let_def split_beta)
    apply (simp add: invariant_def)
    apply (rule pool_ok_update [OF pool k])
    using ok apply (simp_all add: particle_ok_def)
    done
qed

lemma particle_ok_update_particle:
  "particle_ok p \<Longrightarrow> particle_ok (update_particle dt p) \<and> cylinderIndex (update_particle dt p) = cylinderIndex p"
  by (cases "life p") (auto simp: particle_ok_def update_particle_def Let_def)

lemma invariant_updateParticles:
  "invariant cfg s \<Longrightarrow> invariant cfg (updateParticles dt s)"
  by (auto simp: invariant_def updateParticles_def intro!: pool_ok_map particle_ok_update_particle)

lemma invariant_schedule_burst:
  "invariant cfg s \<Longrightarrow> invariant cfg (schedule_burst i v s)"
  by (auto simp: schedule_burst_def Let_def split_beta invariant_def)

lemma invariant_emission_step:
  assumes "invariant cfg s" "i < bandCount cfg"
  shows "\<exists>s'. emission_step dt i s = Inr s' \<and> invariant cfg s'"
proof -
  let ?s1 = "s\<lparr>particleEmissionTimers :=
                  aset (particleEmissionTimers s) i
                    (nsub (aget (particleEmissionTimers s) i) (Num dt))\<rparr>"
  have s1: "invariant cfg ?s1" using assms by (simp add: invariant_def aset_def)
  show ?thesis
  proof (cases "nle (aget (particleEmissionTimers ?s1) i) (Num 0)")
    case False
    with s1 show ?thesis by (simp add: emission_step_def Let_def)
  next
    case True
    from invariant_emitParticle [OF s1, of i "aget (smoothedData s) i"]
    obtain s2 where s2: "emitParticle i (aget (smoothedData s) i) ?s1 = Inr s2" "invariant cfg s2"
      by blast
    have "invariant cfg (s2\<lparr>particleEmissionTimers :=
                        aset (particleEmissionTimers s2) i (emissionRate (aget (smoothedData s) i))\<rparr>)"
      using s2(2) assms(2) by (simp add: invariant_def aset_def)
    then show ?thesis using True s2(1)
      by (simp add: emission_step_def Let_def invariant_schedule_burst)
  qed
qed

lemma invariant_updateParticleEmission:
  assumes "invariant cfg s"
  shows "\<exists>s'. updateParticleEmission dt s = Inr s' \<and> invariant cfg s'"
proof -
  have "config s = cfg" using assms by (simp add: invariant_def)
  then show ?thesis unfolding updateParticleEmission_def
    by (intro for_each_invariant [where P = "invariant cfg"] invariant_emission_step assms) simp_all
qed

lemma invariant_fire_timeout:
  assumes "invariant cfg s"
  shows "\<exists>s'. fire_timeout k s = Inr s' \<and> invariant cfg s'"
proof (cases "k < length (timeouts s)")
  case False
  with assms show ?thesis by (simp add: fire_timeout_def)
next
  case True
  have "invariant cfg (s\<lparr>timeouts := take k (timeouts s) @ drop (Suc k) (timeouts s)\<rparr>)"
    using assms by (simp add: invariant_def)
  from invariant_emitParticle [OF this] True show ?thesis
    by (simp add: fire_timeout_def split: prod.splits)
qed

lemma invariant_update_bar:
  assumes "invariant cfg s" "i < bandCount cfg"
  shows "\<exists>s'. update_bar i s = Inr s' \<and> invariant cfg s'"
  using assms by (simp add: update_bar_def Let_def invariant_def)

lemma invariant_fallback_bar:
  assumes "invariant cfg s" "i < bandCount cfg"
  shows "\<exists>s'. fallback_bar t i s = Inr s' \<and> invariant cfg s'"
  using assms by (simp add: fallback_bar_def Let_def invariant_def)

lemma invariant_updateSpectrumBars:
  assumes "invariant cfg s"
  shows "\<exists>s'. updateSpectrumBars s = Inr s' \<and> invariant cfg s'"
proof -
  have "length (spectrumBars s) = bandCount cfg" using assms by (simp add: invariant_def)
  then show ?thesis unfolding updateSpectrumBars_def
    by (intro for_each_invariant [where P = "invariant cfg"] invariant_update_bar assms) simp_all
qed

lemma invariant_fallbackBars:
  assumes "invariant cfg s"
  shows "\<exists>s'. fallbackBars t s = Inr s' \<and> invariant cfg s'"
proof -
  have "length (spectrumBars s) = bandCount cfg" using assms by (simp add: invariant_def)
  then show ?thesis unfolding fallbackBars_def
    by (intro for_each_invariant [where P = "invariant cfg"] invariant_fallback_bar assms) simp_all
qed

lemma invariant_step:
  assumes "invariant cfg s"
  shows "\<exists>s'. step ev s = Inr s' \<and> invariant cfg s'"
proof (cases ev)
  case (AudioInitialized k)
  with assms show ?thesis by (simp add: invariant_AudioInitialized)
next
  case (GetByteFrequencyData bins)
  with assms show ?thesis by (simp add: invariant_getByteFrequencyData)
next
  case ProcessFrequencyBands
  with assms show ?thesis by (simp add: invariant_processFrequencyBands)
next
  case UpdateSpectrumBars
  with assms show ?thesis by (simp add: invariant_updateSpectrumBars)
next
  case (FallbackBars t)
  with assms show ?thesis by (simp add: invariant_fallbackBars)
next
  case (UpdateParticles dt)
  with assms show ?thesis by (simp add: invariant_updateParticles)
next
  case (UpdateParticleEmission dt)
  with assms show ?thesis by (simp add: invariant_updateParticleEmission)
next
  case (Timeout k)
  with assms show ?thesis by (simp add: invariant_fire_timeout)
qed

lemma invariant_run:
  assumes "invariant cfg s"
  shows "\<exists>s'. run evs s = Inr s' \<and> invariant cfg s'"
  unfolding run_def
  by (intro for_each_invariant [where P = "invariant cfg"] invariant_step assms)

subsection \<open>The gradient\<close>

lemma getCyberpunkColor_unit:
  assumes "0 \<le> p" "p \<le> 1"
  shows "in_unit (red (getCyberpunkColor (Num p)))"
    and "in_unit (green (getCyberpunkColor (Num p)))"
    and "in_unit (blue (getCyberpunkColor (Num p)))"
  using assms by (auto simp: getCyberpunkColor_def Let_def field_simps)

lemma band_progress_Num:
  "2 \<le> n \<Longrightarrow> band_progress n i = Num (real i / (real n - 1))"
  by (simp add: band_progress_def)

lemma band_progress_bounds:
  assumes "2 \<le> n" "i < n"
  shows "0 \<le> real i / (real n - 1)" "real i / (real n - 1) \<le> 1"
  using assms by (simp_all add: field_simps)

lemma constructed_light:
  "i < bandCount cfg \<Longrightarrow>
   diffuse (spectrumLights (AudioSpectrum cfg tape) ! i) =
     getCyberpunkColor (band_progress (bandCount cfg) i)"
  by (simp add: AudioSpectrum_def initializeParticlePool_def createSpectrumBars_def Let_def
      create_bar_def)

lemma constructed_bar:
  "i < bandCount cfg \<Longrightarrow>
   baseColor (material (spectrumBars (AudioSpectrum cfg tape) ! i)) =
     scale_color (getCyberpunkColor (band_progress (bandCount cfg) i)) (Num 0.4)"
  by (simp add: AudioSpectrum_def initializeParticlePool_def createSpectrumBars_def Let_def
      create_bar_def)

text \<open>
  Claim C10. For every gradient position \<open>p\<close> between 0 and 1, the three components
  of \<open>getCyberpunkColor p\<close> lie between 0 and 1. Hence, with at least two bands, the
  base colour of bar \<open>i\<close>, computed at construction from the position
  \<open>i / (bandCount - 1)\<close> (itself between 0 and 1) and kept as the diffuse colour of the
  bar's light and, scaled by 0.4, as the base colour of its material, has all its
  components between 0 and 1.
\<close>

theorem gradient_components_in_unit:
  fixes p :: real and cfg :: audio_spectrum_config and i :: nat
  defines "q \<equiv> real i / (real (bandCount cfg) - 1)"
  shows "(0 \<le> p \<and> p \<le> 1 \<longrightarrow>
            in_unit (red (getCyberpunkColor (Num p))) \<and>
            in_unit (green (getCyberpunkColor (Num p))) \<and>
            in_unit (blue (getCyberpunkColor (Num p)))) \<and>
         (2 \<le> bandCount cfg \<and> i < bandCount cfg \<longrightarrow>
            0 \<le> q \<and> q \<le> 1 \<and>
            diffuse (spectrumLights (AudioSpectrum cfg tape) ! i) = getCyberpunkColor (Num q) \<and>
            baseColor (material (spectrumBars (AudioSpectrum cfg tape) ! i)) =
              scale_color (getCyberpunkColor (Num q)) (Num 0.4) \<and>
            in_unit (red (getCyberpunkColor (Num q))) \<and>
            in_unit (green (getCyberpunkColor (Num q))) \<and>
            in_unit (blue (getCyberpunkColor (Num q))))"
proof (intro conjI impI)
  assume "0 \<le> p \<and> p \<le> 1"
  then show "in_unit (red (getCyberpunkColor (Num p)))"
    "in_unit (green (getCyberpunkColor (Num p)))"
    "in_unit (blue (getCyberpunkColor (Num p)))"
    by (simp_all add: getCyberpunkColor_unit)
next
  assume a: "2 \<le> bandCount cfg \<and> i < bandCount cfg"
  then show q: "0 \<le> q" "q \<le> 1" unfolding q_def by (simp_all add: band_progress_bounds)
  from a show "diffuse (spectrumLights (AudioSpectrum cfg tape) ! i) = getCyberpunkColor (Num q)"
    unfolding q_def by (simp add: constructed_light band_progress_Num)
  from a show "baseColor (material (spectrumBars (AudioSpectrum cfg tape) ! i)) =
              scale_color (getCyberpunkColor (Num q)) (Num 0.4)"
    unfolding q_def by (simp add: constructed_bar band_progress_Num)
  from q show "in_unit (red (getCyberpunkColor (Num q)))"
    "in_unit (green (getCyberpunkColor (Num q)))"
    "in_unit (blue (getCyberpunkColor (Num q)))"
    by (simp_all add: getCyberpunkColor_unit)
qed


theorem gradient_components_in_unit_witness:
  "in_unit (red (getCyberpunkColor (Num (1 / 2)))) \<and>
   in_unit (green (getCyberpunkColor (Num (1 / 2)))) \<and>
   in_unit (blue (getCyberpunkColor (Num (1 / 2)))) \<and>
   2 \<le> bandCount demo_config \<and> 3 < bandCount demo_config \<and>
   diffuse (spectrumLights (AudioSpectrum demo_config (\<lambda>_. 0)) ! 3) = Color3 (Num (23 / 77)) (Num (54 / 77)) (Num 1) \<and>
   in_unit (red (getCyberpunkColor (Num (3 / 7)))) \<and>
   in_unit (green (getCyberpunkColor (Num (3 / 7)))) \<and>
   in_unit (blue (getCyberpunkColor (Num (3 / 7))))"
  using gradient_components_in_unit [of "1 / 2" demo_config 3 "\<lambda>_. 0"]
  by (simp add: demo_config_def getCyberpunkColor_def)

subsection \<open>One invocation of the band-processing step\<close>

lemma reachable_invariant:
  "run evs (AudioSpectrum cfg tape) = Inr s \<Longrightarrow> invariant cfg s"
  using invariant_run [OF invariant_init [of cfg tape], of evs] by auto

lemma group_of_bins:
  assumes "s + w \<le> length fd"
  shows "map (\<lambda>j. f (fd ! j)) [s..<s + w] = map f (take w (drop s fd))"
  using assms by (auto intro!: nth_equalityI)

lemma smoothedData_processFrequencyBands:
  assumes "invariant cfg s" "frequencyData s = Some fd" "i < bandCount cfg"
  shows "smoothedData (processFrequencyBands s) ! i =
           smooth (smoothedData s ! i) (band_normalized fd (bandCount cfg) i)"
    and "length (smoothedData (processFrequencyBands s)) = bandCount cfg"
proof -
  from assms(1) have c: "config s = cfg" and len: "length (smoothedData s) = bandCount (config s)"
    by (simp_all add: invariant_def)
  show "smoothedData (processFrequencyBands s) ! i =
           smooth (smoothedData s ! i) (band_normalized fd (bandCount cfg) i)"
    unfolding processFrequencyBands_Some [OF assms(2) len] using assms(3) c by simp
  show "length (smoothedData (processFrequencyBands s)) = bandCount cfg"
    unfolding processFrequencyBands_Some [OF assms(2) len] using c by simp
qed

lemma band_normalized_mean:
  assumes "0 < n" "n \<le> length fd" "i < n"
  shows "band_normalized fd n i =
     Num (min ((real (sum_list (map unat (take (length fd div n) (drop (i * (length fd div n)) fd)))) 
               / real (length fd div n) / 255) * 2.5) 1)"
proof -
  let ?w = "length fd div n"
  have "Suc i * ?w \<le> n * ?w" using assms by (intro mult_le_mono1) simp
  also have "\<dots> \<le> length fd" by simp
  finally have le: "i * ?w + ?w \<le> length fd" by simp
  have w: "0 < ?w" using assms by (simp add: div_greater_zero_iff)
  show ?thesis
    unfolding band_normalized_def band_average_Num [OF assms] group_of_bins [OF le, of unat]
    using w by simp
qed

text \<open>
  Claim C1. In a state the visualizer reaches, with a sample of at least as many bins as
  there are bands (and at least one band), one invocation of
  \<open>processFrequencyBands\<close> sets every band \<open>i\<close> to
  \<open>smoothed[i] * 0.7 + normalized[i] * 0.3\<close>, where \<open>normalized[i]\<close> is
  \<open>min ((mean / 255) * 2.5) 1\<close> and \<open>mean\<close> is the arithmetic mean of the
  \<open>i\<close>-th group of \<open>w\<close> consecutive bins, \<open>w\<close> the sample length divided by the
  band count, rounded down.
\<close>

theorem band_update:
  assumes "run evs (AudioSpectrum cfg tape) = Inr s"
    and "frequencyData s = Some fd"
    and "0 < bandCount cfg" and "bandCount cfg \<le> length fd" and "i < bandCount cfg"
  defines "w \<equiv> length fd div bandCount cfg"
  defines "mean \<equiv> real (sum_list (map unat (take w (drop (i * w) fd)))) / real w"
  defines "normalized \<equiv> Num (min ((mean / 255) * 2.5) 1)"
  shows "smoothedData (processFrequencyBands s) ! i =
           nadd (nmul (smoothedData s ! i) (Num 0.7)) (nmul normalized (Num 0.3))"
proof -
  have inv: "invariant cfg s" using assms(1) by (rule reachable_invariant)
  show ?thesis
    unfolding smoothedData_processFrequencyBands(1) [OF inv assms(2) assms(5)]
      band_normalized_mean [OF assms(3,4,5)] smooth_def normalized_def mean_def w_def ..
qed

lemma frequencyData_sampled: "frequencyData (sampled bins s) = Some bins"
  by (simp add: sampled_def getByteFrequencyData_def)

lemma smoothedData_sampled: "smoothedData (sampled bins s) = smoothedData s"
  by (simp add: sampled_def getByteFrequencyData_def)

lemma smoothedData_init: "smoothedData (AudioSpectrum cfg tape) = replicate (bandCount cfg) (Num 0)"
  by (simp add: AudioSpectrum_def initializeParticlePool_def createSpectrumBars_def Let_def)

theorem band_update_witness:
  "run [AudioInitialized 4, GetByteFrequencyData [255, 255, 0, 51]] (AudioSpectrum two_bands demo_tape)
     = Inr (sampled [255, 255, 0, 51] (AudioSpectrum two_bands demo_tape)) \<and>
   frequencyData (sampled [255, 255, 0, 51] (AudioSpectrum two_bands demo_tape)) = Some [255, 255, 0, 51] \<and>
   smoothedData (sampled [255, 255, 0, 51] (AudioSpectrum two_bands demo_tape)) ! 1 = Num 0 \<and>
   smoothedData (processFrequencyBands (sampled [255, 255, 0, 51] (AudioSpectrum two_bands demo_tape))) ! 1
     = Num (3 / 40)"
proof -
  have r: "run [AudioInitialized 4, GetByteFrequencyData [255, 255, 0, 51]] (AudioSpectrum two_bands demo_tape)
     = Inr (sampled [255, 255, 0, 51] (AudioSpectrum two_bands demo_tape))"
    by (simp add: run_def sampled_def eval_nat_numeral)
  have f: "frequencyData (sampled [255, 255, 0, 51] (AudioSpectrum two_bands demo_tape)) = Some [255, 255, 0, 51]"
    by (rule frequencyData_sampled)
  have b: "bandCount two_bands = 2" by (simp add: two_bands_def)
  have s: "smoothedData (sampled [255, 255, 0, 51] (AudioSpectrum two_bands demo_tape)) ! 1 = Num 0"
    by (simp add: smoothedData_sampled smoothedData_init b)
  from band_update [OF r f, of 1] s
  have "smoothedData (processFrequencyBands (sampled [255, 255, 0, 51] (AudioSpectrum two_bands demo_tape))) ! 1
     = Num (3 / 40)"
    by (simp add: b)
  with r f s show ?thesis by simp
qed

subsection \<open>The smoothed values stay in the unit interval\<close>

lemma for_each_frame:
  assumes "\<And>i s s'. body i s = Inr s' \<Longrightarrow> f s' = f s"
    and "for_each body is s = Inr s'"
  shows "f s' = f s"
  using assms(2)
proof (induction "is" arbitrary: s)
  case Nil
  then show ?case by simp
next
  case (Cons i "is")
  then obtain s1 where s1: "body i s = Inr s1" "for_each body is s1 = Inr s'"
    by (auto split: sum.splits)
  from Cons.IH [OF s1(2)] assms(1) [OF s1(1)] show ?case by simp
qed

lemma emitParticle_bands:
  "emitParticle c v s = Inr s' \<Longrightarrow>
   smoothedData s' = smoothedData s \<and> frequencyData s' = frequencyData s"
  by (auto simp: emitParticle_def Let_def split_beta split: option.splits if_splits)

lemma schedule_burst_bands:
  "smoothedData (schedule_burst i v s) = smoothedData s \<and>
   frequencyData (schedule_burst i v s) = frequencyData s"
  by (simp add: schedule_burst_def Let_def split_beta)

lemma emission_step_bands:
  "emission_step dt i s = Inr s' \<Longrightarrow>
   smoothedData s' = smoothedData s \<and> frequencyData s' = frequencyData s"
  by (auto simp: emission_step_def Let_def schedule_burst_bands split: if_splits sum.splits
      dest!: emitParticle_bands)

lemma update_bar_bands:
  "update_bar i s = Inr s' \<Longrightarrow>
   smoothedData s' = smoothedData s \<and> frequencyData s' = frequencyData s"
  by (auto simp: update_bar_def Let_def split: if_splits)

lemma fallback_bar_bands:
  "fallback_bar t i s = Inr s' \<Longrightarrow>
   smoothedData s' = smoothedData s \<and> frequencyData s' = frequencyData s"
  by (auto simp: fallback_bar_def Let_def split: if_splits)

lemma step_bands:
  assumes "step ev s = Inr s'"
    and "\<And>k. ev \<noteq> AudioInitialized k" "\<And>bins. ev \<noteq> GetByteFrequencyData bins"
    and "ev \<noteq> ProcessFrequencyBands"
  shows "smoothedData s' = smoothedData s \<and> frequencyData s' = frequencyData s"
proof (cases ev)
  case UpdateSpectrumBars
  with assms(1) have fe: "for_each update_bar [0..<length (spectrumBars s)] s = Inr s'"
    by (simp add: updateSpectrumBars_def)
  have "band_fields s' = band_fields s"
    by (rule for_each_frame [OF _ fe]) (simp add: band_fields_def update_bar_bands)
  then show ?thesis by (simp add: band_fields_def)
next
  case (FallbackBars t)
  with assms(1) have fe: "for_each (fallback_bar t) [0..<length (spectrumBars s)] s = Inr s'"
    by (simp add: fallbackBars_def)
  have "band_fields s' = band_fields s"
    by (rule for_each_frame [OF _ fe]) (simp add: band_fields_def fallback_bar_bands)
  then show ?thesis by (simp add: band_fields_def)
next
  case (UpdateParticles dt)
  with assms(1) show ?thesis by (auto simp: updateParticles_def)
next
  case (UpdateParticleEmission dt)
  with assms(1) have fe: "for_each (emission_step dt) [0..<bandCount (config s)] s = Inr s'"
    by (simp add: updateParticleEmission_def)
  have "band_fields s' = band_fields s"
    by (rule for_each_frame [OF _ fe]) (simp add: band_fields_def emission_step_bands)
  then show ?thesis by (simp add: band_fields_def)
next
  case (Timeout k)
  show ?thesis
  proof (cases "k < length (timeouts s)")
    case True
    obtain d i v where t: "timeouts s ! k = (d, i, v)" by (cases "timeouts s ! k")
    from assms(1) Timeout True t
    have "emitParticle i v (s\<lparr>timeouts := take k (timeouts s) @ drop (Suc k) (timeouts s)\<rparr>) = Inr s'"
      by (simp add: fire_timeout_def)
    from emitParticle_bands [OF this] show ?thesis by simp
  next
    case False
    with assms(1) Timeout show ?thesis by (simp add: fire_timeout_def)
  qed
next
  case (AudioInitialized k)
  with assms(2) [of k] show ?thesis by blast
next
  case (GetByteFrequencyData bins)
  with assms(3) [of bins] show ?thesis by blast
next
  case ProcessFrequencyBands
  with assms(4) show ?thesis by blast
qed

lemma smooth_unit:
  "in_unit v \<Longrightarrow> 0 \<le> x \<Longrightarrow> x \<le> 1 \<Longrightarrow> in_unit (smooth v (Num x))"
  by (cases v) (auto simp: smooth_def intro: add_nonneg_nonneg)

lemma bands_ok_step:
  assumes "bands_ok cfg s" "0 < bandCount cfg" "\<And>k. ev = AudioInitialized k \<Longrightarrow> bandCount cfg \<le> k"
  shows "\<exists>s'. step ev s = Inr s' \<and> bands_ok cfg s'"
proof -
  from assms(1) have inv: "invariant cfg s" by (simp add: bands_ok_def)
  from invariant_step [OF inv, of ev] obtain s' where s': "step ev s = Inr s'" "invariant cfg s'"
    by blast
  have "bands_ok cfg s'"
  proof (cases ev)
    case (AudioInitialized k)
    with s' assms show ?thesis by (auto simp: bands_ok_def)
  next
    case (GetByteFrequencyData bins)
    with s' assms(1) show ?thesis
      by (auto simp: bands_ok_def getByteFrequencyData_def split: option.splits)
  next
    case ProcessFrequencyBands
    show ?thesis
    proof (cases "frequencyData s")
      case None
      with ProcessFrequencyBands s' assms(1) show ?thesis by (auto simp: processFrequencyBands_def)
    next
      case (Some fd)
      from assms(1) Some have le: "bandCount cfg \<le> length fd" by (simp add: bands_ok_def)
      from inv have c: "config s = cfg" and len: "length (smoothedData s) = bandCount (config s)"
        by (simp_all add: invariant_def)
      have "in_unit (smooth (smoothedData s ! j) (band_normalized fd (bandCount cfg) j))"
        if "j < bandCount cfg" for j
      proof -
        from band_normalized_unit [OF assms(2) le that] obtain x
          where "band_normalized fd (bandCount cfg) j = Num x" "0 \<le> x" "x \<le> 1" by blast
        moreover have "in_unit (smoothedData s ! j)"
          using assms(1) that len c by (simp add: bands_ok_def list_all_length)
        ultimately show ?thesis by (simp add: smooth_unit)
      qed
      then have "list_all in_unit (smoothedData (processFrequencyBands s))"
        unfolding processFrequencyBands_Some [OF Some len] using c
        by (simp add: list_all_iff)
      moreover have "frequencyData (processFrequencyBands s) = Some fd"
        unfolding processFrequencyBands_Some [OF Some len] using Some by simp
      ultimately show ?thesis using ProcessFrequencyBands s' le by (auto simp: bands_ok_def)
    qed
  qed (use step_bands [OF s'(1)] s'(2) assms(1) in \<open>auto simp: bands_ok_def\<close>)
  with s'(1) show ?thesis by blast
qed

lemma bands_ok_init: "bands_ok cfg (AudioSpectrum cfg tape)"
proof -
  have "frequencyData (AudioSpectrum cfg tape) = None"
    by (simp add: AudioSpectrum_def initializeParticlePool_def createSpectrumBars_def Let_def)
  then show ?thesis
    by (simp add: bands_ok_def invariant_init smoothedData_init list_all_iff)
qed

text \<open>
  Claim C2, amended. With at least one band, and every sample array of at least as many
  bins as there are bands, in every state the visualizer reaches there are exactly
  \<open>bandCount\<close> smoothed values and each is a real between 0 and 1. (With more bands
  than bins every group of bins is empty, its mean is \<open>0 / 0\<close> and the smoothed values
  become \<open>NaN\<close>: see the counterexample below.)
\<close>

theorem smoothed_in_unit:
  assumes "run evs (AudioSpectrum cfg tape) = Inr s"
    and "0 < bandCount cfg"
    and "\<forall>k. AudioInitialized k \<in> set evs \<longrightarrow> bandCount cfg \<le> k"
  shows "length (smoothedData s) = bandCount cfg \<and> list_all in_unit (smoothedData s)"
proof -
  have "\<exists>s'. for_each step evs (AudioSpectrum cfg tape) = Inr s' \<and> bands_ok cfg s'"
    using assms(2,3)
    by (intro for_each_invariant [where P = "bands_ok cfg"] bands_ok_step bands_ok_init) auto
  with assms(1) have "bands_ok cfg s" by (auto simp: run_def)
  then show ?thesis by (simp add: bands_ok_def invariant_def)
qed


theorem smoothed_in_unit_witness:
  "run [AudioInitialized 4, GetByteFrequencyData [255, 255, 0, 51], ProcessFrequencyBands]
      (AudioSpectrum two_bands demo_tape)
     = Inr (processFrequencyBands (sampled [255, 255, 0, 51] (AudioSpectrum two_bands demo_tape))) \<and>
   0 < bandCount two_bands \<and> bandCount two_bands \<le> 4 \<and>
   length (smoothedData (processFrequencyBands
      (sampled [255, 255, 0, 51] (AudioSpectrum two_bands demo_tape)))) = 2 \<and>
   list_all in_unit (smoothedData (processFrequencyBands
      (sampled [255, 255, 0, 51] (AudioSpectrum two_bands demo_tape))))"
proof -
  have r: "run [AudioInitialized 4, GetByteFrequencyData [255, 255, 0, 51], ProcessFrequencyBands]
      (AudioSpectrum two_bands demo_tape)
     = Inr (processFrequencyBands (sampled [255, 255, 0, 51] (AudioSpectrum two_bands demo_tape)))"
    by (simp add: run_def sampled_def eval_nat_numeral)
  have b: "bandCount two_bands = 2" by (simp add: two_bands_def)
  from smoothed_in_unit [OF r] b r show ?thesis by simp
qed

text \<open>
  The claim as stated, for every band count above zero, fails with 129 bands on the
  128 bins of the source's analyser: after one frame the smoothed values are \<open>NaN\<close>.
\<close>

theorem smoothed_not_a_number_counterexample:
  "run [AudioInitialized 128, ProcessFrequencyBands] (AudioSpectrum too_many_bands demo_tape)
     = Inr (processFrequencyBands
         ((AudioSpectrum too_many_bands demo_tape)\<lparr>frequencyData := Some (replicate 128 0)\<rparr>)) \<and>
   0 < bandCount too_many_bands \<and>
   smoothedData (processFrequencyBands
     ((AudioSpectrum too_many_bands demo_tape)\<lparr>frequencyData := Some (replicate 128 0)\<rparr>)) ! 0 = NaN \<and>
   \<not> list_all in_unit (smoothedData (processFrequencyBands
     ((AudioSpectrum too_many_bands demo_tape)\<lparr>frequencyData := Some (replicate 128 0)\<rparr>)))"
proof -
  let ?s = "(AudioSpectrum too_many_bands demo_tape)\<lparr>frequencyData := Some (replicate 128 0)\<rparr>"
  have b: "bandCount too_many_bands = 129" by (simp add: too_many_bands_def)
  have inv: "invariant too_many_bands ?s"
    by (rule invariant_AudioInitialized) (rule invariant_init)
  have f: "frequencyData ?s = Some (replicate 128 0)" by simp
  have "smoothedData (processFrequencyBands ?s) ! 0 =
          smooth (smoothedData ?s ! 0) (band_normalized (replicate 128 0) (bandCount too_many_bands) 0)"
    by (rule smoothedData_processFrequencyBands(1) [OF inv f]) (simp add: b)
  also have "band_normalized (replicate 128 0) (bandCount too_many_bands) 0 = NaN"
    by (simp add: band_normalized_def band_average_NaN b)
  finally have n: "smoothedData (processFrequencyBands ?s) ! 0 = NaN"
    by (cases "smoothedData ?s ! 0") (simp_all add: smooth_def)
  have len: "length (smoothedData (processFrequencyBands ?s)) = 129"
    using smoothedData_processFrequencyBands(2) [OF inv f, of 0] b by simp
  have "\<not> list_all in_unit (smoothedData (processFrequencyBands ?s))"
  proof
    assume "list_all in_unit (smoothedData (processFrequencyBands ?s))"
    then have "in_unit (smoothedData (processFrequencyBands ?s) ! 0)"
      using len by (simp add: list_all_length)
    with n show False by simp
  qed
  moreover have "run [AudioInitialized 128, ProcessFrequencyBands] (AudioSpectrum too_many_bands demo_tape)
     = Inr (processFrequencyBands ?s)"
    by (simp add: run_def)
  ultimately show ?thesis using n b by simp
qed

subsection \<open>The pool\<close>

lemma run_total: "\<exists>s. run evs (AudioSpectrum cfg tape) = Inr s"
  using invariant_run [OF invariant_init [of cfg tape], of evs] by auto

lemma length_filter_div:
  assumes "0 < m"
  shows "length (filter (\<lambda>k. k div m = i) [0..<N]) \<le> m"
proof -
  have "set (filter (\<lambda>k. k div m = i) [0..<N]) \<subseteq> {i * m..<i * m + m}"
  proof
    fix k assume "k \<in> set (filter (\<lambda>k. k div m = i) [0..<N])"
    then have "k div m = i" by simp
    with assms have "i * m \<le> k" "k < i * m + m"
      using div_times_less_eq_dividend [of k m] dividend_less_div_times [of m k]
      by (auto simp: mult.commute)
    then show "k \<in> {i * m..<i * m + m}" by simp
  qed
  then have "card (set (filter (\<lambda>k. k div m = i) [0..<N])) \<le> card {i * m..<i * m + m}"
    by (intro card_mono) simp_all
  then have c: "card (set (filter (\<lambda>k. k div m = i) [0..<N])) \<le> m" by simp
  have "distinct (filter (\<lambda>k. k div m = i) [0..<N])" by simp
  from distinct_card [OF this] c show ?thesis by (simp only:)
qed

lemma active_count_le:
  assumes "pool_ok n pool"
  shows "active_count i pool \<le> maxParticlesPerCylinder"
proof -
  have "active_count i pool \<le> length (filter (\<lambda>p. cylinderIndex p = i) pool)"
    unfolding active_count_def
    by (induction pool) auto
  also have "\<dots> = length (filter (\<lambda>c. c = i) (map cylinderIndex pool))"
    by (simp add: filter_map comp_def)
  also have "\<dots> = length (filter (\<lambda>k. k div maxParticlesPerCylinder = i) [0..<n * maxParticlesPerCylinder])"
    using assms by (simp add: pool_ok_def filter_map comp_def)
  also have "\<dots> \<le> maxParticlesPerCylinder"
    by (rule length_filter_div) (simp add: maxParticlesPerCylinder_def)
  finally show ?thesis .
qed

lemma pool_ok_length:
  "pool_ok n pool \<Longrightarrow> length pool = n * maxParticlesPerCylinder"
  using length_map [of cylinderIndex pool] by (simp add: pool_ok_def)

text \<open>
  Claim C3. In every state the visualizer reaches, no band has more than
  \<open>maxParticlesPerCylinder\<close>, that is 10, active pool entries; the pool has exactly
  \<open>bandCount * 10\<close> entries, as many as the constructor created and with the same owning
  band at every position (entry \<open>k\<close> belongs to band \<open>k div 10\<close>): no entry is added,
  removed or given to another band. (The states are those of a live visualizer:
  \<^verbatim>\<open>dispose\<close>, which empties the pool, ends its life.)
\<close>

theorem pool_bounded:
  assumes "run evs (AudioSpectrum cfg tape) = Inr s"
  shows "active_count i (particlePool s) \<le> maxParticlesPerCylinder \<and>
         maxParticlesPerCylinder = 10 \<and>
         length (particlePool s) = bandCount cfg * maxParticlesPerCylinder \<and>
         length (particlePool s) = length (particlePool (AudioSpectrum cfg tape)) \<and>
         map cylinderIndex (particlePool s) = map cylinderIndex (particlePool (AudioSpectrum cfg tape)) \<and>
         (\<forall>k<length (particlePool s). cylinderIndex (particlePool s ! k) = k div maxParticlesPerCylinder)"
proof -
  from assms have "invariant cfg s" by (rule reachable_invariant)
  then have pool: "pool_ok (bandCount cfg) (particlePool s)" by (simp add: invariant_def)
  have "pool_ok (bandCount cfg) (particlePool (AudioSpectrum cfg tape))"
    using invariant_init [of cfg tape] by (simp add: invariant_def)
  then have same: "map cylinderIndex (particlePool s) = map cylinderIndex (particlePool (AudioSpectrum cfg tape))"
    using pool by (simp add: pool_ok_def)
  from same have "length (particlePool s) = length (particlePool (AudioSpectrum cfg tape))"
    using map_eq_imp_length_eq by blast
  with same active_count_le [OF pool, of i] pool_ok_length [OF pool] pool_ok_index(1) [OF pool]
  show ?thesis
    by (simp add: maxParticlesPerCylinder_def)
qed



lemma run_first_frame:
  "run [UpdateParticleEmission (1 / 60)] (AudioSpectrum two_bands demo_tape) = Inr first_frame"
  using run_total [of "[UpdateParticleEmission (1 / 60)]" two_bands demo_tape]
  by (auto simp: first_frame_def run_def split: sum.splits)

lemma first_frame_0: "active (particlePool first_frame ! 0)"
  unfolding first_frame_def by code_simp

lemma first_frame_life: "life (particlePool first_frame ! 0) = Num 3"
  unfolding first_frame_def by code_simp

lemma first_frame_len: "length (particlePool first_frame) = 20"
  unfolding first_frame_def by code_simp


text \<open>The frames as events, and the state with a full pool.\<close>

lemma for_each_append:
  "for_each body (xs @ ys) s =
     (case for_each body xs s of Inl e \<Rightarrow> Inl e | Inr s' \<Rightarrow> for_each body ys s')"
  by (induction xs arbitrary: s) (auto split: sum.splits)

lemma run_append:
  "run (xs @ ys) s = (case run xs s of Inl e \<Rightarrow> Inl e | Inr s' \<Rightarrow> run ys s')"
  unfolding run_def by (rule for_each_append)

lemma run_before_emission:
  "run [GetByteFrequencyData bins, ProcessFrequencyBands, UpdateSpectrumBars, UpdateParticles dt] s
     = before_emission bins dt s"
  by (simp add: run_def before_emission_def Let_def split: sum.splits)

lemma run_animate_events:
  "frequencyData s \<noteq> None \<Longrightarrow> run (animate_events bins dt) s = animate bins dt s"
  by (auto simp: run_def animate_events_def animate_def before_emission_def Let_def
      split: sum.splits)

lemma frequencyData_fold_process_band:
  "frequencyData (fold (process_band fd) js s) = frequencyData s"
  by (induction js arbitrary: s) (simp_all add: process_band_def)

lemma frequencyData_processFrequencyBands:
  "frequencyData (processFrequencyBands s) = frequencyData s"
  by (simp add: processFrequencyBands_def frequencyData_fold_process_band split: option.splits)

lemma step_keeps_sample:
  assumes "step ev s = Inr s'" "frequencyData s \<noteq> None"
  shows "frequencyData s' \<noteq> None"
proof (cases ev)
  case (AudioInitialized k)
  with assms show ?thesis by auto
next
  case (GetByteFrequencyData bins)
  with assms show ?thesis by (auto simp: getByteFrequencyData_def)
next
  case ProcessFrequencyBands
  with assms show ?thesis by (auto simp: frequencyData_processFrequencyBands)
next
  case UpdateSpectrumBars
  with step_bands [OF assms(1)] assms(2) show ?thesis by simp
next
  case (FallbackBars t)
  with step_bands [OF assms(1)] assms(2) show ?thesis by simp
next
  case (UpdateParticles dt)
  with step_bands [OF assms(1)] assms(2) show ?thesis by simp
next
  case (UpdateParticleEmission dt)
  with step_bands [OF assms(1)] assms(2) show ?thesis by simp
next
  case (Timeout k)
  with step_bands [OF assms(1)] assms(2) show ?thesis by simp
qed

lemma run_keeps_sample:
  "run evs s = Inr s' \<Longrightarrow> frequencyData s \<noteq> None \<Longrightarrow> frequencyData s' \<noteq> None"
  unfolding run_def
proof (induction evs arbitrary: s)
  case Nil
  then show ?case by simp
next
  case (Cons ev evs)
  then obtain s1 where "step ev s = Inr s1" "for_each step evs s1 = Inr s'"
    by (auto split: sum.splits)
  with Cons.IH [of s1] step_keeps_sample [of ev s s1] Cons.prems(2) show ?case by simp
qed

lemma run_frames:
  "frequencyData s \<noteq> None \<Longrightarrow>
   run (concat (replicate k (animate_events bins dt))) s = frames k bins dt s"
proof (induction k arbitrary: s)
  case 0
  then show ?case by (simp add: run_def)
next
  case (Suc k)
  show ?case
  proof (cases "animate bins dt s")
    case (Inl e)
    with Suc.prems show ?thesis by (simp add: run_append run_animate_events)
  next
    case (Inr s1)
    with Suc.prems have "run (animate_events bins dt) s = Inr s1"
      by (simp add: run_animate_events)
    from run_keeps_sample [OF this Suc.prems] have "frequencyData s1 \<noteq> None" .
    from Suc.IH [OF this] Inr Suc.prems show ?thesis
      by (simp add: run_append run_animate_events)
  qed
qed

lemma run_pool_full:
  "run full_pool_events (AudioSpectrum two_bands demo_tape) = Inr pool_full"
proof -
  let ?s0 = "(AudioSpectrum two_bands demo_tape)\<lparr>frequencyData := Some [0, 0, 0, 0]\<rparr>"
  have r: "run full_pool_events (AudioSpectrum two_bands demo_tape) =
        (case frames 10 loud (1 / 4) ?s0 of Inl e \<Rightarrow> Inl e
         | Inr s' \<Rightarrow> before_emission loud (1 / 4) s')"
  proof -
    have "run full_pool_events (AudioSpectrum two_bands demo_tape) =
        run (concat (replicate 10 (animate_events loud (1 / 4))) @
     [GetByteFrequencyData loud, ProcessFrequencyBands, UpdateSpectrumBars, UpdateParticles (1 / 4)]) ?s0"
      by (simp add: full_pool_events_def run_def eval_nat_numeral)
    also have "\<dots> = (case frames 10 loud (1 / 4) ?s0 of Inl e \<Rightarrow> Inl e
         | Inr s' \<Rightarrow> before_emission loud (1 / 4) s')"
      unfolding run_append run_before_emission by (subst run_frames) simp_all
    finally show ?thesis .
  qed
  from run_total obtain s where s: "run full_pool_events (AudioSpectrum two_bands demo_tape) = Inr s"
    by blast
  with r obtain s1 where s1: "frames 10 loud (1 / 4) ?s0 = Inr s1"
    and b: "before_emission loud (1 / 4) s1 = Inr s"
    by (auto split: sum.splits)
  then have "pool_full = s" by (simp add: pool_full_def)
  with s show ?thesis by simp
qed

lemma pool_full_summary:
  "pool_summary pool_full =
     (10, True, True, [0, 0, 0, 0, 0, 0, 0, 0, 0, 0, 1, 1, 1, 1, 1, 1, 1, 1, 1, 1])"
  unfolding pool_full_def loud_def by code_simp

lemma pool_full_facts:
  "active_count 0 (particlePool pool_full) = 10"
  "list_all (\<lambda>p. active p \<or> cylinderIndex p \<noteq> 0) (particlePool pool_full)"
  "due (1 / 4) 0 pool_full"
  "map cylinderIndex (particlePool pool_full) =
     [0, 0, 0, 0, 0, 0, 0, 0, 0, 0, 1, 1, 1, 1, 1, 1, 1, 1, 1, 1]"
  using pool_full_summary by (simp_all add: pool_summary_def)

lemma pool_full_no_inactive: "\<not> has_inactive 0 pool_full"
  using pool_full_facts(2) by (simp add: has_inactive_def getInactiveParticle_None list_all_iff)


theorem pool_bounded_witness:
  "run full_pool_events (AudioSpectrum two_bands demo_tape) = Inr pool_full \<and>
   active_count 0 (particlePool pool_full) = 10 \<and> maxParticlesPerCylinder = 10 \<and>
   length (particlePool pool_full) = 20 \<and>
   map cylinderIndex (particlePool pool_full) =
     [0, 0, 0, 0, 0, 0, 0, 0, 0, 0, 1, 1, 1, 1, 1, 1, 1, 1, 1, 1] \<and>
   map cylinderIndex (particlePool (AudioSpectrum two_bands demo_tape)) =
     [0, 0, 0, 0, 0, 0, 0, 0, 0, 0, 1, 1, 1, 1, 1, 1, 1, 1, 1, 1]"
proof -
  have b: "bandCount two_bands = 2" by (simp add: two_bands_def)
  from pool_bounded [OF run_pool_full, of 0] pool_full_facts(1,4) b run_pool_full
  show ?thesis by simp
qed


subsection \<open>The life of a particle\<close>

lemma update_particle_inactive: "\<not> active p \<Longrightarrow> update_particle dt p = p"
  by (simp add: update_particle_def)

lemma update_particle_active:
  assumes "active p" "life p = Num l" "active p = enabled (mesh p)"
  shows "life (update_particle dt p) = Num (l - dt)"
    and "active (update_particle dt p) = (0 < l - dt)"
    and "enabled (mesh (update_particle dt p)) = (0 < l - dt)"
  using assms by (auto simp: update_particle_def Let_def)

lemma update_bar_pool: "update_bar i s = Inr s' \<Longrightarrow> particlePool s' = particlePool s"
  by (auto simp: update_bar_def Let_def split: if_splits)

lemma fallback_bar_pool: "fallback_bar t i s = Inr s' \<Longrightarrow> particlePool s' = particlePool s"
  by (auto simp: fallback_bar_def Let_def split: if_splits)

lemma getByteFrequencyData_pool: "particlePool (getByteFrequencyData bins s) = particlePool s"
  by (simp add: getByteFrequencyData_def split: option.splits)

lemma processFrequencyBands_pool:
  "invariant cfg s \<Longrightarrow> particlePool (processFrequencyBands s) = particlePool s"
proof (cases "frequencyData s")
  case None
  then show ?thesis by (simp add: processFrequencyBands_def)
next
  case (Some fd)
  assume "invariant cfg s"
  then have "length (smoothedData s) = bandCount (config s)" by (simp add: invariant_def)
  from processFrequencyBands_Some [OF Some this] show ?thesis by simp
qed

lemma step_keeps_inactive:
  assumes "step ev s = Inr s'" "invariant cfg s" "k < length (particlePool s)"
    and "\<not> active (particlePool s ! k)"
    and "\<And>d. ev \<noteq> UpdateParticleEmission d" "\<And>j. ev \<noteq> Timeout j"
  shows "\<not> active (particlePool s' ! k)"
proof (cases ev)
  case (AudioInitialized n)
  with assms show ?thesis by auto
next
  case (GetByteFrequencyData bins)
  with assms show ?thesis by (auto simp: getByteFrequencyData_pool)
next
  case ProcessFrequencyBands
  with assms show ?thesis by (auto simp: processFrequencyBands_pool)
next
  case UpdateSpectrumBars
  with assms(1) have fe: "for_each update_bar [0..<length (spectrumBars s)] s = Inr s'"
    by (simp add: updateSpectrumBars_def)
  have "particlePool s' = particlePool s"
    by (rule for_each_frame [OF _ fe]) (simp add: update_bar_pool)
  with assms show ?thesis by simp
next
  case (FallbackBars t)
  with assms(1) have fe: "for_each (fallback_bar t) [0..<length (spectrumBars s)] s = Inr s'"
    by (simp add: fallbackBars_def)
  have "particlePool s' = particlePool s"
    by (rule for_each_frame [OF _ fe]) (simp add: fallback_bar_pool)
  with assms show ?thesis by simp
next
  case (UpdateParticles dt)
  with assms show ?thesis by (auto simp: updateParticles_def update_particle_inactive)
next
  case (UpdateParticleEmission d)
  with assms(5) [of d] show ?thesis by blast
next
  case (Timeout j)
  with assms(6) [of j] show ?thesis by blast
qed

text \<open>
  Claim C4. In every state the visualizer reaches, for every pool entry and every
  elapsed time \<open>dt > 0\<close>: if the entry is active, its remaining life \<open>l\<close> is a real and
  \<open>updateParticles\<close> makes it \<open>l - dt\<close>, strictly less; the entry stays active, with its
  mesh enabled, exactly when \<open>l - dt\<close> is still positive, and otherwise becomes inactive
  with its mesh disabled. If the entry is inactive, its mesh is disabled,
  \<open>updateParticles\<close> leaves it as it is (so it does not die a second time), and the
  only events after which it can be active are those that emit: an emission update or a
  burst callback.
\<close>

theorem particle_lifecycle:
  assumes "run evs (AudioSpectrum cfg tape) = Inr s" and "k < length (particlePool s)" and "0 < dt"
  shows "(active (particlePool s ! k) \<longrightarrow>
            (\<exists>l. life (particlePool s ! k) = Num l \<and>
                 life (particlePool (updateParticles dt s) ! k) = Num (l - dt) \<and> l - dt < l \<and>
                 active (particlePool (updateParticles dt s) ! k) = (0 < l - dt) \<and>
                 enabled (mesh (particlePool (updateParticles dt s) ! k)) = (0 < l - dt))) \<and>
         (\<not> active (particlePool s ! k) \<longrightarrow>
            \<not> enabled (mesh (particlePool s ! k)) \<and>
            particlePool (updateParticles dt s) ! k = particlePool s ! k \<and>
            (\<forall>ev s'. step ev s = Inr s' \<and> active (particlePool s' ! k) \<longrightarrow>
               (\<exists>d. ev = UpdateParticleEmission d) \<or> (\<exists>j. ev = Timeout j)))"
proof -
  let ?p = "particlePool s ! k"
  from assms(1) have inv: "invariant cfg s" by (rule reachable_invariant)
  with assms(2) have ok: "particle_ok ?p"
    by (simp add: invariant_def pool_ok_def list_all_length)
  have upd: "particlePool (updateParticles dt s) ! k = update_particle dt ?p"
    using assms(2) by (simp add: updateParticles_def)
  have 1: "\<exists>l. life ?p = Num l \<and>
                 life (particlePool (updateParticles dt s) ! k) = Num (l - dt) \<and> l - dt < l \<and>
                 active (particlePool (updateParticles dt s) ! k) = (0 < l - dt) \<and>
                 enabled (mesh (particlePool (updateParticles dt s) ! k)) = (0 < l - dt)"
    if a: "active ?p"
  proof -
    from ok obtain l where l: "life ?p = Num l" by (cases "life ?p") (simp_all add: particle_ok_def)
    from ok have e: "active ?p = enabled (mesh ?p)" by (simp add: particle_ok_def)
    from update_particle_active [OF a l e, of dt] l assms(3) show ?thesis
      unfolding upd by simp
  qed
  have 2: "\<not> enabled (mesh ?p) \<and>
            particlePool (updateParticles dt s) ! k = ?p \<and>
            (\<forall>ev s'. step ev s = Inr s' \<and> active (particlePool s' ! k) \<longrightarrow>
               (\<exists>d. ev = UpdateParticleEmission d) \<or> (\<exists>j. ev = Timeout j))"
    if a: "\<not> active ?p"
  proof -
    from ok a have "\<not> enabled (mesh ?p)" by (simp add: particle_ok_def)
    moreover have "particlePool (updateParticles dt s) ! k = ?p"
      unfolding upd using a by (rule update_particle_inactive)
    moreover have "(\<exists>d. ev = UpdateParticleEmission d) \<or> (\<exists>j. ev = Timeout j)"
      if "step ev s = Inr s'" "active (particlePool s' ! k)" for ev s'
      using step_keeps_inactive [OF that(1) inv assms(2) a] that(2) by blast
    ultimately show ?thesis by blast
  qed
  from 1 2 show ?thesis by blast
qed

theorem particle_lifecycle_witness:
  "run [UpdateParticleEmission (1 / 60)] (AudioSpectrum two_bands demo_tape) = Inr first_frame \<and>
   0 < length (particlePool first_frame) \<and>
   active (particlePool first_frame ! 0) \<and>
   life (particlePool first_frame ! 0) = Num 3 \<and>
   life (particlePool (updateParticles 1 first_frame) ! 0) = Num 2 \<and>
   active (particlePool (updateParticles 1 first_frame) ! 0) \<and>
   enabled (mesh (particlePool (updateParticles 1 first_frame) ! 0)) \<and>
   life (particlePool (updateParticles 3 first_frame) ! 0) = Num 0 \<and>
   \<not> active (particlePool (updateParticles 3 first_frame) ! 0) \<and>
   \<not> enabled (mesh (particlePool (updateParticles 3 first_frame) ! 0))"
proof -
  have k: "0 < length (particlePool first_frame)" using first_frame_len by simp
  from particle_lifecycle [OF run_first_frame k, of 1]
    particle_lifecycle [OF run_first_frame k, of 3]
    first_frame_0 first_frame_life run_first_frame k
  show ?thesis by simp
qed

subsection \<open>Emission updates\<close>

lemma length_filter_update:
  "k < length xs \<Longrightarrow>
   length (filter P (xs[k := y])) + (if P (xs ! k) then 1 else 0) =
   length (filter P xs) + (if P y then 1 else 0)"
proof (induction xs arbitrary: k)
  case Nil
  then show ?case by simp
next
  case (Cons x xs)
  then show ?case by (cases k) auto
qed

lemma active_count_activate:
  assumes "k < length pool" "\<not> active (pool ! k)" "active p" "cylinderIndex p = c"
  shows "active_count i (pool[k := p]) = active_count i pool + (if i = c then 1 else 0)"
  using length_filter_update [OF assms(1), of "\<lambda>p. active p \<and> cylinderIndex p = i" p] assms(2-4)
  by (auto simp: active_count_def)

lemma has_inactive_iff:
  "getInactiveParticle pool i \<noteq> None \<longleftrightarrow>
   (\<exists>k<length pool. \<not> active (pool ! k) \<and> cylinderIndex (pool ! k) = i)"
proof -
  have "getInactiveParticle pool i \<noteq> None \<longleftrightarrow>
        (\<exists>p\<in>set pool. \<not> active p \<and> cylinderIndex p = i)"
    by (simp add: getInactiveParticle_None)
  also have "\<dots> \<longleftrightarrow> (\<exists>k<length pool. \<not> active (pool ! k) \<and> cylinderIndex (pool ! k) = i)"
    by (metis in_set_conv_nth)
  finally show ?thesis .
qed

lemma has_inactive_other_band:
  assumes "k < length pool" "cylinderIndex (pool ! k) = c" "cylinderIndex p = c" "i \<noteq> c"
  shows "getInactiveParticle (pool[k := p]) i \<noteq> None \<longleftrightarrow> getInactiveParticle pool i \<noteq> None"
proof -
  have "(\<not> active ((pool[k := p]) ! j) \<and> cylinderIndex ((pool[k := p]) ! j) = i) =
        (\<not> active (pool ! j) \<and> cylinderIndex (pool ! j) = i)" if "j < length pool" for j
    using assms that by (cases "j = k") auto
  then show ?thesis unfolding has_inactive_iff by auto
qed

text \<open>What one call of \<open>emitParticle\<close> does to the pool.\<close>

lemma emitParticle_effect:
  assumes "emitParticle c v s = Inr s'"
  shows "particleEmissionTimers s' = particleEmissionTimers s \<and> config s' = config s \<and>
         active_count i (particlePool s') =
           active_count i (particlePool s) + (if i = c \<and> has_inactive c s then 1 else 0) \<and>
         (i \<noteq> c \<longrightarrow> has_inactive i s' = has_inactive i s)"
proof (cases "getInactiveParticle (particlePool s) c")
  case None
  with assms show ?thesis by (simp add: emitParticle_def has_inactive_def)
next
  case (Some k)
  from getInactiveParticle_Some [OF Some]
  have k: "k < length (particlePool s)" "\<not> active (particlePool s ! k)"
    "cylinderIndex (particlePool s ! k) = c" by simp_all
  from assms Some obtain p where p: "particlePool s' = (particlePool s)[k := p]" "active p"
    "cylinderIndex p = c" and t: "particleEmissionTimers s' = particleEmissionTimers s"
    "config s' = config s"
    using k(3) by (auto simp: emitParticle_def Let_def split_beta split: if_splits)
  show ?thesis
    using active_count_activate [OF k(1,2) p(2,3), of i]
      has_inactive_other_band [OF k(1,3) p(3), of i] Some t
    by (simp add: p(1) has_inactive_def)
qed

lemma schedule_burst_fields:
  "particlePool (schedule_burst i v s) = particlePool s"
  "particleEmissionTimers (schedule_burst i v s) = particleEmissionTimers s"
  "config (schedule_burst i v s) = config s"
  by (simp_all add: schedule_burst_def Let_def split_beta)

text \<open>What one iteration of the emission loop does.\<close>

lemma emission_step_effect:
  assumes "emission_step dt j s = Inr s'" "j < length (particleEmissionTimers s)"
  shows "smoothedData s' = smoothedData s \<and> config s' = config s \<and>
         particleEmissionTimers s' =
           (particleEmissionTimers s)
             [j := if due dt j s then emissionRate (aget (smoothedData s) j)
                   else nsub (aget (particleEmissionTimers s) j) (Num dt)] \<and>
         active_count i (particlePool s') =
           active_count i (particlePool s) +
             (if i = j \<and> due dt j s \<and> has_inactive j s then 1 else 0) \<and>
         (i \<noteq> j \<longrightarrow> has_inactive i s' = has_inactive i s)"
proof -
  let ?s1 = "s\<lparr>particleEmissionTimers :=
                  aset (particleEmissionTimers s) j
                    (nsub (aget (particleEmissionTimers s) j) (Num dt))\<rparr>"
  have d: "nle (aget (particleEmissionTimers ?s1) j) (Num 0) = due dt j s"
    using assms(2) by (simp add: due_def aget_def aset_def)
  have h1: "has_inactive i ?s1 = has_inactive i s" for i by (simp add: has_inactive_def)
  show ?thesis
  proof (cases "due dt j s")
    case False
    with assms d show ?thesis
      by (auto simp: emission_step_def Let_def aset_def has_inactive_def)
  next
    case True
    with assms(1) d obtain s2 where s2: "emitParticle j (aget (smoothedData s) j) ?s1 = Inr s2"
      and s': "s' = schedule_burst j (aget (smoothedData s) j)
                 (s2\<lparr>particleEmissionTimers :=
                        aset (particleEmissionTimers s2) j (emissionRate (aget (smoothedData s) j))\<rparr>)"
      by (auto simp: emission_step_def Let_def split: sum.splits)
    from emitParticle_effect [OF s2, of i] emitParticle_bands [OF s2] True assms(2)
    show ?thesis
      by (simp add: s' schedule_burst_fields schedule_burst_bands h1 aset_def has_inactive_def)
  qed
qed

text \<open>The whole loop, over any list of distinct bands.\<close>

lemma emission_loop_effect:
  assumes "for_each (emission_step dt) js s = Inr s'" "distinct js"
    and "\<forall>j\<in>set js. j < length (particleEmissionTimers s)"
  shows "smoothedData s' = smoothedData s \<and>
         length (particleEmissionTimers s') = length (particleEmissionTimers s) \<and>
         particleEmissionTimers s' ! i =
           (if i \<in> set js then
              (if due dt i s then emissionRate (aget (smoothedData s) i)
               else nsub (aget (particleEmissionTimers s) i) (Num dt))
            else particleEmissionTimers s ! i) \<and>
         active_count i (particlePool s') =
           active_count i (particlePool s) +
             (if i \<in> set js \<and> due dt i s \<and> has_inactive i s then 1 else 0) \<and>
         (i \<notin> set js \<longrightarrow> has_inactive i s' = has_inactive i s \<and> due dt i s' = due dt i s)"
  using assms
proof (induction js arbitrary: s)
  case Nil
  then show ?case by simp
next
  case (Cons j js)
  from Cons.prems(1) obtain s1 where s1: "emission_step dt j s = Inr s1"
    and rest: "for_each (emission_step dt) js s1 = Inr s'"
    by (auto split: sum.splits)
  from Cons.prems(3) have j: "j < length (particleEmissionTimers s)" by simp
  note e = emission_step_effect [OF s1 j, of i]
  from e have len: "length (particleEmissionTimers s1) = length (particleEmissionTimers s)" by simp
  from Cons.prems(2,3) len have "distinct js" "\<forall>j\<in>set js. j < length (particleEmissionTimers s1)"
    by simp_all
  note ih = Cons.IH [OF rest this]
  show ?case
  proof (cases "i = j")
    case True
    with Cons.prems(2) have "i \<notin> set js" by simp
    with ih e True j show ?thesis by simp
  next
    case False
    with e j have "due dt i s1 = due dt i s" "aget (particleEmissionTimers s1) i = aget (particleEmissionTimers s) i"
      by (simp_all add: due_def aget_def)
    with ih e False j show ?thesis by (auto simp: aget_def)
  qed
qed

lemma emissionRate_formula:
  "\<not> nlt v (Num 0) \<Longrightarrow>
   emissionRate v = Math_max (Num 0.05) (nsub (Num 0.3) (nmul v (Num 0.25)))"
  by (cases v) (auto simp: emissionRate_def Let_def min_def max_def)

lemma emissionRate_antitone:
  assumes "v \<le> w"
  shows "\<exists>a b. emissionRate (Num v) = Num a \<and> emissionRate (Num w) = Num b \<and> b \<le> a \<and> 0.05 \<le> b"
  using assms by (auto simp: emissionRate_def Let_def min_def max_def)

text \<open>
  Claim C5, amended. In every state the visualizer reaches, for every band \<open>i\<close> that is due,
  \<open>updateParticleEmission\<close> returns normally, leaves the band's timer at
  \<open>max 0.05 (0.3 - intensity * 0.25)\<close>, and performs one emission from the band's pool:
  one more entry of the band is active if the band had an inactive entry (and, as
  Claim C6 says, none otherwise). The interval \<open>emissionRate\<close> assigns is never below
  0.05 and does not increase with the intensity.
\<close>

theorem emission_update:
  assumes "run evs (AudioSpectrum cfg tape) = Inr s" and "i < bandCount cfg" and "due dt i s"
  shows "(\<exists>s'. updateParticleEmission dt s = Inr s' \<and>
            particleEmissionTimers s' ! i =
              Math_max (Num 0.05) (nsub (Num 0.3) (nmul (smoothedData s ! i) (Num 0.25))) \<and>
            active_count i (particlePool s') =
              active_count i (particlePool s) + (if has_inactive i s then 1 else 0)) \<and>
         (\<forall>v w. v \<le> w \<longrightarrow>
            (\<exists>a b. emissionRate (Num v) = Num a \<and> emissionRate (Num w) = Num b \<and>
                   b \<le> a \<and> 0.05 \<le> b))"
proof -
  from assms(1) have inv: "invariant cfg s" by (rule reachable_invariant)
  then have c: "config s = cfg" and lt: "length (particleEmissionTimers s) = bandCount cfg"
    and ls: "length (smoothedData s) = bandCount cfg"
    and nn: "list_all (\<lambda>v. \<not> nlt v (Num 0)) (smoothedData s)"
    by (simp_all add: invariant_def)
  from invariant_updateParticleEmission [OF inv, of dt]
  obtain s' where s': "updateParticleEmission dt s = Inr s'" by blast
  then have fe: "for_each (emission_step dt) [0..<bandCount cfg] s = Inr s'"
    by (simp add: updateParticleEmission_def c)
  have "\<forall>j\<in>set [0..<bandCount cfg]. j < length (particleEmissionTimers s)"
    by (simp add: lt)
  from emission_loop_effect [OF fe _ this, of i] assms(2,3)
  have t: "particleEmissionTimers s' ! i = emissionRate (aget (smoothedData s) i)"
    and a: "active_count i (particlePool s') =
              active_count i (particlePool s) + (if has_inactive i s then 1 else 0)"
    by simp_all
  have g: "aget (smoothedData s) i = smoothedData s ! i" using assms(2) ls by (simp add: aget_def)
  have "\<not> nlt (smoothedData s ! i) (Num 0)"
    using nn assms(2) ls by (simp add: list_all_length)
  from emissionRate_formula [OF this] t g
  have "particleEmissionTimers s' ! i =
              Math_max (Num 0.05) (nsub (Num 0.3) (nmul (smoothedData s ! i) (Num 0.25)))"
    by simp
  with s' a emissionRate_antitone show ?thesis by blast
qed

lemma run_nil: "run [] s = Inr s"
  by (simp add: run_def)

theorem emission_update_witness:
  "run [] (AudioSpectrum two_bands demo_tape) = Inr (AudioSpectrum two_bands demo_tape) \<and>
   0 < bandCount two_bands \<and>
   due (1 / 60) 0 (AudioSpectrum two_bands demo_tape) \<and>
   has_inactive 0 (AudioSpectrum two_bands demo_tape) \<and>
   updateParticleEmission (1 / 60) (AudioSpectrum two_bands demo_tape) = Inr first_frame \<and>
   particleEmissionTimers first_frame ! 0 = Num (3 / 10) \<and>
   active_count 0 (particlePool (AudioSpectrum two_bands demo_tape)) = 0 \<and>
   active_count 0 (particlePool first_frame) = 1 \<and>
   emissionRate (Num 0) = Num (3 / 10) \<and> emissionRate (Num 1) = Num (1 / 20)"
proof -
  let ?s = "AudioSpectrum two_bands demo_tape"
  have b: "0 < bandCount two_bands" by (simp add: two_bands_def)
  have d: "due (1 / 60) 0 ?s" by code_simp
  have h: "has_inactive 0 ?s" by code_simp
  have z: "smoothedData ?s ! 0 = Num 0" by code_simp
  have a0: "active_count 0 (particlePool ?s) = 0" by code_simp
  from emission_update [OF run_nil b d] h z a0
  obtain s' where s': "updateParticleEmission (1 / 60) ?s = Inr s'"
    "particleEmissionTimers s' ! 0 = Num (3 / 10)" "active_count 0 (particlePool s') = 1"
    by auto
  from s'(1) have "first_frame = s'" by (simp add: first_frame_def)
  moreover have "emissionRate (Num 0) = Num (3 / 10)" "emissionRate (Num 1) = Num (1 / 20)"
    by (simp_all add: emissionRate_def)
  ultimately show ?thesis using s' b d h a0 run_nil [of ?s] by simp
qed


text \<open>
  The claim as stated, one particle for every due band, fails when the pool of the band
  is full: in the eleventh of the frames above band 0 is due, all its ten entries are
  active, and the emission update leaves it with ten active entries, the eleventh
  particle being dropped.
\<close>

theorem no_emission_when_pool_full_counterexample:
  "run full_pool_events (AudioSpectrum two_bands demo_tape) = Inr pool_full \<and>
   due (1 / 4) 0 pool_full \<and>
   updateParticleEmission (1 / 4) pool_full =
     Inr (projr (updateParticleEmission (1 / 4) pool_full)) \<and>
   active_count 0 (particlePool pool_full) = 10 \<and>
   active_count 0 (particlePool (projr (updateParticleEmission (1 / 4) pool_full))) = 10"
proof -
  have inv: "invariant two_bands pool_full"
    using run_pool_full by (rule reachable_invariant)
  then have c: "config pool_full = two_bands"
    and lt: "length (particleEmissionTimers pool_full) = bandCount two_bands"
    by (simp_all add: invariant_def)
  from invariant_updateParticleEmission [OF inv, of "1 / 4"]
  obtain s' where s': "updateParticleEmission (1 / 4) pool_full = Inr s'" by blast
  then have fe: "for_each (emission_step (1 / 4)) [0..<bandCount two_bands] pool_full = Inr s'"
    by (simp add: updateParticleEmission_def c)
  have "\<forall>j\<in>set [0..<bandCount two_bands]. j < length (particleEmissionTimers pool_full)"
    by (simp add: lt)
  from emission_loop_effect [OF fe _ this, of 0] pool_full_no_inactive
  have "active_count 0 (particlePool s') = active_count 0 (particlePool pool_full)"
    by simp
  with s' pool_full_facts(1,3) run_pool_full show ?thesis by simp
qed


subsection \<open>An exhausted pool\<close>

text \<open>
  Claim C6. If every pool entry is active or owned by another band, then
  \<open>getInactiveParticle\<close> finds nothing and \<open>emitParticle\<close> returns normally with the
  state as it was: no particle, timer, bar, light, pending callback or random draw has
  changed.
\<close>

theorem exhausted_emission_is_noop:
  assumes "\<forall>p\<in>set (particlePool s). active p \<or> cylinderIndex p \<noteq> c"
  shows "getInactiveParticle (particlePool s) c = None \<and> emitParticle c intensity s = Inr s"
proof -
  from assms have "getInactiveParticle (particlePool s) c = None"
    by (simp add: getInactiveParticle_None)
  then show ?thesis by (simp add: emitParticle_def)
qed


theorem exhausted_emission_is_noop_witness:
  "run full_pool_events (AudioSpectrum two_bands demo_tape) = Inr pool_full \<and>
   list_all (\<lambda>p. active p \<or> cylinderIndex p \<noteq> 0) (particlePool pool_full) \<and>
   active_count 0 (particlePool pool_full) = 10 \<and>
   getInactiveParticle (particlePool pool_full) 0 = None \<and>
   emitParticle 0 (Num 1) pool_full = Inr pool_full"
proof -
  from pool_full_facts(2)
  have "\<forall>p\<in>set (particlePool pool_full). active p \<or> cylinderIndex p \<noteq> 0"
    by (simp add: list_all_iff)
  from exhausted_emission_is_noop [OF this, of "Num 1"] pool_full_facts(1,2) run_pool_full
  show ?thesis by simp
qed

section \<open>Verification of the VR session data\<close>

subsection \<open>Reading through references\<close>

lemma heap_grows_refl: "heap_grows W h h"
  by (auto simp: heap_grows_def)

lemma heap_grows_trans:
  assumes "heap_grows W h h'" "heap_grows W h' h''"
  shows "heap_grows W h h''"
  unfolding heap_grows_def
proof (intro conjI allI impI)
  from assms show "length h \<le> length h''" by (simp add: heap_grows_def)
next
  fix p assume p: "p < length h"
  with assms(1) have p': "p < length h'" by (simp add: heap_grows_def)
  from assms(1) p have 1: "h' ! p = h ! p \<or>
        (p \<in> W \<and> (\<exists>d. h ! p = SessionData d) \<and> (\<exists>d. h' ! p = SessionData d))"
    by (simp add: heap_grows_def)
  from assms(2) p' have 2: "h'' ! p = h' ! p \<or>
        (p \<in> W \<and> (\<exists>d. h' ! p = SessionData d) \<and> (\<exists>d. h'' ! p = SessionData d))"
    by (simp add: heap_grows_def)
  from 1 2 show "h'' ! p = h ! p \<or>
        (p \<in> W \<and> (\<exists>d. h ! p = SessionData d) \<and> (\<exists>d. h'' ! p = SessionData d))"
    by metis
qed

lemma heap_grows_append: "heap_grows W h (h @ xs)"
  by (auto simp: heap_grows_def nth_append)

lemma heap_grows_mono: "heap_grows {} h h' \<Longrightarrow> heap_grows W h h'"
  by (auto simp: heap_grows_def)

lemma length_assign_session [simp]: "length (assign_session f a h) = length h"
  by (simp add: assign_session_def split: obj.splits)

lemma heap_grows_assign: "heap_grows {c} h (assign_session f c h)"
  by (auto simp: heap_grows_def assign_session_def nth_list_update split: obj.splits)

lemma assign_session_SessionData:
  "a < length h \<Longrightarrow> h ! a = SessionData d \<Longrightarrow> assign_session f a h = h[a := SessionData (f d)]"
  by (simp add: assign_session_def)

text \<open>Reading is stable when the store grows and only session objects are written.\<close>

lemma read_xyz_stable:
  assumes "heap_grows W h h'" "read_xyz h p = Some v"
  shows "read_xyz h' p = Some v"
proof -
  from assms(2) have p: "p < length h" by (simp add: read_xyz_def split: if_splits)
  with assms have "h' ! p = h ! p" "p < length h'"
    by (auto simp: read_xyz_def heap_grows_def split: obj.splits)
  with assms(2) p show ?thesis by (simp add: read_xyz_def)
qed

lemma read_controller_stable:
  assumes "heap_grows W h h'" "read_controller h p = Some v"
  shows "read_controller h' p = Some v"
proof -
  from assms(2) have p: "p < length h" by (simp add: read_controller_def split: if_splits)
  with assms have eq: "h' ! p = h ! p" "p < length h'"
    by (auto simp: read_controller_def heap_grows_def split: obj.splits)
  from assms(2) p obtain name a b cn pv qv where o: "h ! p = ControllerData name a b cn"
    and r: "read_xyz h a = Some pv" "read_xyz h b = Some qv" and v: "v = (name, pv, qv, cn)"
    by (auto simp: read_controller_def split: obj.splits option.splits)
  from read_xyz_stable [OF assms(1) r(1)] read_xyz_stable [OF assms(1) r(2)] o eq v
  show ?thesis by (simp add: read_controller_def)
qed

lemma read_all_stable:
  assumes "\<And>p v. f p = Some v \<Longrightarrow> g p = Some v" "read_all f ps = Some vs"
  shows "read_all g ps = Some vs"
  using assms(2)
proof (induction ps arbitrary: vs)
  case Nil
  then show ?case by simp
next
  case (Cons p ps)
  then obtain v ws where "f p = Some v" "read_all f ps = Some ws" "vs = v # ws"
    by (auto split: option.splits)
  with Cons.IH [of ws] assms(1) [of p v] show ?case by simp
qed

lemma read_controllers_stable:
  assumes "heap_grows W h h'" "read_controllers h p = Some v"
  shows "read_controllers h' p = Some v"
proof -
  from assms(2) have p: "p < length h" by (simp add: read_controllers_def split: if_splits)
  with assms have eq: "h' ! p = h ! p" "p < length h'"
    by (auto simp: read_controllers_def heap_grows_def split: obj.splits)
  from assms(2) p obtain as where o: "h ! p = ArrayObj as"
    and r: "read_all (read_controller h) as = Some v"
    by (auto simp: read_controllers_def split: obj.splits)
  have "read_all (read_controller h') as = Some v"
    by (rule read_all_stable [OF _ r]) (rule read_controller_stable [OF assms(1)])
  with o eq show ?thesis by (simp add: read_controllers_def)
qed

lemma read_snapshot_Some:
  "read_snapshot h a = Some v \<longleftrightarrow>
   a < length h \<and>
   (\<exists>r cs hp hr. h ! a = SessionData r \<and>
      read_controllers h (controllers r) = Some cs \<and> read_xyz h (headPosition r) = Some hp \<and>
      read_xyz h (headRotation r) = Some hr \<and>
      v = \<lparr>sv_isActive = isActive r, sv_isSupported = isSupported r,
           sv_controllers = cs, sv_headPosition = hp, sv_headRotation = hr\<rparr>)"
  by (auto simp: read_snapshot_def split: obj.splits option.splits)

lemma read_snapshot_stable:
  assumes "heap_grows W h h'" "read_snapshot h a = Some v" "a \<notin> W"
  shows "read_snapshot h' a = Some v"
proof -
  from assms(2) obtain r cs hp hr where a: "a < length h" and o: "h ! a = SessionData r"
    and rd: "read_controllers h (controllers r) = Some cs" "read_xyz h (headPosition r) = Some hp"
      "read_xyz h (headRotation r) = Some hr"
    and v: "v = \<lparr>sv_isActive = isActive r, sv_isSupported = isSupported r,
                        sv_controllers = cs, sv_headPosition = hp, sv_headRotation = hr\<rparr>"
    unfolding read_snapshot_Some by blast
  from assms(1,3) a have eq: "h' ! a = h ! a" "a < length h'" by (auto simp: heap_grows_def)
  from read_controllers_stable [OF assms(1) rd(1)] read_xyz_stable [OF assms(1) rd(2)]
    read_xyz_stable [OF assms(1) rd(3)] o eq v
  show ?thesis unfolding read_snapshot_Some by (simp del: split_paired_Ex)
qed

text \<open>The value of the session object after an assignment to one of its fields.\<close>

lemma read_snapshot_assign:
  assumes "read_snapshot h c = Some v"
  obtains r where "c < length h" "h ! c = SessionData r"
    "heap_grows {c} h (assign_session f c h)"
    "assign_session f c h ! c = SessionData (f r)"
    "read_controllers h (controllers r) = Some (sv_controllers v)"
    "read_xyz h (headPosition r) = Some (sv_headPosition v)"
    "read_xyz h (headRotation r) = Some (sv_headRotation v)"
    "isActive r = sv_isActive v" "isSupported r = sv_isSupported v"
proof -
  from assms obtain r cs hp hr where c: "c < length h" and o: "h ! c = SessionData r"
    and rd0: "read_controllers h (controllers r) = Some cs" "read_xyz h (headPosition r) = Some hp"
      "read_xyz h (headRotation r) = Some hr"
    and v: "v = \<lparr>sv_isActive = isActive r, sv_isSupported = isSupported r,
                        sv_controllers = cs, sv_headPosition = hp, sv_headRotation = hr\<rparr>"
    unfolding read_snapshot_Some by blast
  from rd0 v have rd: "read_controllers h (controllers r) = Some (sv_controllers v)"
    "read_xyz h (headPosition r) = Some (sv_headPosition v)"
    "read_xyz h (headRotation r) = Some (sv_headRotation v)"
    "isActive r = sv_isActive v" "isSupported r = sv_isSupported v"
    by simp_all
  have a: "assign_session f c h ! c = SessionData (f r)"
    using c o by (simp add: assign_session_SessionData)
  show ?thesis by (rule that [OF c o heap_grows_assign a rd])
qed

lemma assign_flag:
  assumes "read_snapshot h c = Some v"
    and "\<And>r. controllers (f r) = controllers r \<and> headPosition (f r) = headPosition r \<and>
             headRotation (f r) = headRotation r \<and> isActive (f r) = a r \<and> isSupported (f r) = b r"
    and "\<And>r. isActive r = sv_isActive v \<Longrightarrow> isSupported r = sv_isSupported v \<Longrightarrow> a r = a' \<and> b r = b'"
  shows "read_snapshot (assign_session f c h) c = Some (v\<lparr>sv_isActive := a', sv_isSupported := b'\<rparr>)"
proof -
  from assms(1) obtain r where r: "c < length h" "h ! c = SessionData r"
    "heap_grows {c} h (assign_session f c h)"
    "assign_session f c h ! c = SessionData (f r)"
    "read_controllers h (controllers r) = Some (sv_controllers v)"
    "read_xyz h (headPosition r) = Some (sv_headPosition v)"
    "read_xyz h (headRotation r) = Some (sv_headRotation v)"
    "isActive r = sv_isActive v" "isSupported r = sv_isSupported v"
    by (rule read_snapshot_assign)
  from read_controllers_stable [OF r(3,5)] read_xyz_stable [OF r(3,6)] read_xyz_stable [OF r(3,7)]
    r(1,4) assms(2) [of r] assms(3) [OF r(8,9)]
  show ?thesis unfolding read_snapshot_Some by (simp del: split_paired_Ex)
qed

lemma read_snapshot_from:
  assumes "heap_grows W h h'" "c < length h'" "h' ! c = SessionData r"
    and "read_controllers h (controllers r) = Some cs" "read_xyz h (headPosition r) = Some hp"
    and "read_xyz h (headRotation r) = Some hr"
  shows "read_snapshot h' c =
           Some \<lparr>sv_isActive = isActive r, sv_isSupported = isSupported r,
                 sv_controllers = cs, sv_headPosition = hp, sv_headRotation = hr\<rparr>"
  using read_controllers_stable [OF assms(1,4)] read_xyz_stable [OF assms(1,5)]
    read_xyz_stable [OF assms(1,6)] assms(2,3)
  unfolding read_snapshot_Some by (simp del: split_paired_Ex)

lemma read_xyz_new: "read_xyz (h @ [XYZ x y z]) (length h) = Some (x, y, z)"
  by (simp add: read_xyz_def)

lemma read_controllers_new:
  "read_all (read_controller h) as = Some cs \<Longrightarrow>
   read_controllers (h @ [ArrayObj as]) (length h) = Some cs"
  using read_all_stable [of "read_controller h" "read_controller (h @ [ArrayObj as])" as cs]
    read_controller_stable [OF heap_grows_append [of "{}" h "[ArrayObj as]"]]
  by (simp add: read_controllers_def)

text \<open>What each of the three assignments does to the value of the session object.\<close>

lemma assign_headPosition_value:
  assumes "read_snapshot h c = Some v"
  shows "read_snapshot (assign_headPosition xyz c h) c = Some (v\<lparr>sv_headPosition := xyz\<rparr>)"
    and "heap_grows {c} h (assign_headPosition xyz c h)"
proof -
  obtain x y z where xyz: "xyz = (x, y, z)" by (cases xyz)
  let ?h1 = "h @ [XYZ x y z]"
  let ?f = "\<lambda>r. r\<lparr>headPosition := length h\<rparr>"
  have eq: "assign_headPosition xyz c h = assign_session ?f c ?h1"
    by (simp add: assign_headPosition_def alloc_def xyz)
  have g1: "heap_grows {c} h ?h1" by (rule heap_grows_append)
  from read_snapshot_stable [OF heap_grows_append [of "{}" h "[XYZ x y z]"] assms]
  have v1: "read_snapshot ?h1 c = Some v" by simp
  from v1 obtain r where r: "c < length ?h1" "?h1 ! c = SessionData r"
    "heap_grows {c} ?h1 (assign_session ?f c ?h1)"
    "assign_session ?f c ?h1 ! c = SessionData (?f r)"
    "read_controllers ?h1 (controllers r) = Some (sv_controllers v)"
    "read_xyz ?h1 (headPosition r) = Some (sv_headPosition v)"
    "read_xyz ?h1 (headRotation r) = Some (sv_headRotation v)"
    "isActive r = sv_isActive v" "isSupported r = sv_isSupported v"
    by (rule read_snapshot_assign)
  show "heap_grows {c} h (assign_headPosition xyz c h)"
    unfolding eq by (rule heap_grows_trans [OF g1 r(3)])
  have "read_snapshot (assign_session ?f c ?h1) c =
          Some \<lparr>sv_isActive = isActive (?f r), sv_isSupported = isSupported (?f r),
                 sv_controllers = sv_controllers v, sv_headPosition = (x, y, z),
                 sv_headRotation = sv_headRotation v\<rparr>"
    by (rule read_snapshot_from [OF r(3) _ r(4)]) (use r in \<open>simp_all add: read_xyz_new\<close>)
  then show "read_snapshot (assign_headPosition xyz c h) c = Some (v\<lparr>sv_headPosition := xyz\<rparr>)"
    unfolding eq using r(8,9) by (simp add: xyz)
qed

lemma assign_headRotation_value:
  assumes "read_snapshot h c = Some v"
  shows "read_snapshot (assign_headRotation xyz c h) c = Some (v\<lparr>sv_headRotation := xyz\<rparr>)"
    and "heap_grows {c} h (assign_headRotation xyz c h)"
proof -
  obtain x y z where xyz: "xyz = (x, y, z)" by (cases xyz)
  let ?h1 = "h @ [XYZ x y z]"
  let ?f = "\<lambda>r. r\<lparr>headRotation := length h\<rparr>"
  have eq: "assign_headRotation xyz c h = assign_session ?f c ?h1"
    by (simp add: assign_headRotation_def alloc_def xyz)
  have g1: "heap_grows {c} h ?h1" by (rule heap_grows_append)
  from read_snapshot_stable [OF heap_grows_append [of "{}" h "[XYZ x y z]"] assms]
  have v1: "read_snapshot ?h1 c = Some v" by simp
  from v1 obtain r where r: "c < length ?h1" "?h1 ! c = SessionData r"
    "heap_grows {c} ?h1 (assign_session ?f c ?h1)"
    "assign_session ?f c ?h1 ! c = SessionData (?f r)"
    "read_controllers ?h1 (controllers r) = Some (sv_controllers v)"
    "read_xyz ?h1 (headPosition r) = Some (sv_headPosition v)"
    "read_xyz ?h1 (headRotation r) = Some (sv_headRotation v)"
    "isActive r = sv_isActive v" "isSupported r = sv_isSupported v"
    by (rule read_snapshot_assign)
  show "heap_grows {c} h (assign_headRotation xyz c h)"
    unfolding eq by (rule heap_grows_trans [OF g1 r(3)])
  have "read_snapshot (assign_session ?f c ?h1) c =
          Some \<lparr>sv_isActive = isActive (?f r), sv_isSupported = isSupported (?f r),
                 sv_controllers = sv_controllers v, sv_headPosition = sv_headPosition v,
                 sv_headRotation = (x, y, z)\<rparr>"
    by (rule read_snapshot_from [OF r(3) _ r(4)]) (use r in \<open>simp_all add: read_xyz_new\<close>)
  then show "read_snapshot (assign_headRotation xyz c h) c = Some (v\<lparr>sv_headRotation := xyz\<rparr>)"
    unfolding eq using r(8,9) by (simp add: xyz)
qed

lemma assign_controllers_value:
  assumes "read_snapshot h c = Some v" "read_all (read_controller h) as = Some cs"
  shows "read_snapshot (assign_controllers as c h) c = Some (v\<lparr>sv_controllers := cs\<rparr>)"
    and "heap_grows {c} h (assign_controllers as c h)"
proof -
  let ?h1 = "h @ [ArrayObj as]"
  let ?f = "\<lambda>r. r\<lparr>controllers := length h\<rparr>"
  have eq: "assign_controllers as c h = assign_session ?f c ?h1"
    by (simp add: assign_controllers_def alloc_def)
  have g1: "heap_grows {c} h ?h1" by (rule heap_grows_append)
  from read_snapshot_stable [OF heap_grows_append [of "{}" h "[ArrayObj as]"] assms(1)]
  have v1: "read_snapshot ?h1 c = Some v" by simp
  from v1 obtain r where r: "c < length ?h1" "?h1 ! c = SessionData r"
    "heap_grows {c} ?h1 (assign_session ?f c ?h1)"
    "assign_session ?f c ?h1 ! c = SessionData (?f r)"
    "read_controllers ?h1 (controllers r) = Some (sv_controllers v)"
    "read_xyz ?h1 (headPosition r) = Some (sv_headPosition v)"
    "read_xyz ?h1 (headRotation r) = Some (sv_headRotation v)"
    "isActive r = sv_isActive v" "isSupported r = sv_isSupported v"
    by (rule read_snapshot_assign)
  show "heap_grows {c} h (assign_controllers as c h)"
    unfolding eq by (rule heap_grows_trans [OF g1 r(3)])
  have "read_snapshot (assign_session ?f c ?h1) c =
          Some \<lparr>sv_isActive = isActive (?f r), sv_isSupported = isSupported (?f r),
                 sv_controllers = cs, sv_headPosition = sv_headPosition v,
                 sv_headRotation = sv_headRotation v\<rparr>"
    by (rule read_snapshot_from [OF r(3) _ r(4)])
      (use r read_controllers_new [OF assms(2)] in simp_all)
  then show "read_snapshot (assign_controllers as c h) c = Some (v\<lparr>sv_controllers := cs\<rparr>)"
    unfolding eq using r(8,9) by simp
qed

text \<open>The controllers the poll allocates are readable in the store it returns.\<close>

lemma controller_data_readable:
  assumes "controller_data k c h = (a, h')"
  shows "heap_grows {} h h' \<and> (\<exists>v. read_controller h' a = Some v)"
proof -
  have "heap_grows {} h h'"
    using assms by (auto simp: controller_data_def alloc_def Let_def heap_grows_def nth_append)
  moreover have "\<exists>v. read_controller h' a = Some v"
    using assms
    by (auto simp: controller_data_def alloc_def Let_def read_controller_def read_xyz_def nth_append)
  ultimately show ?thesis by blast
qed

lemma map_controllers_readable:
  "map_controllers k cs h = (as, h') \<Longrightarrow>
   heap_grows {} h h' \<and> (\<exists>vs. read_all (read_controller h') as = Some vs)"
proof (induction cs arbitrary: k h as h')
  case Nil
  then show ?case by (simp add: heap_grows_refl)
next
  case (Cons c cs)
  obtain a h1 where c1: "controller_data k c h = (a, h1)" by (cases "controller_data k c h")
  obtain bs h2 where c2: "map_controllers (Suc k) cs h1 = (bs, h2)"
    by (cases "map_controllers (Suc k) cs h1")
  from Cons.prems c1 c2 have eq: "as = a # bs" "h' = h2" by simp_all
  from controller_data_readable [OF c1] obtain v where g1: "heap_grows {} h h1"
    and v: "read_controller h1 a = Some v" by blast
  from Cons.IH [OF c2] obtain vs where g2: "heap_grows {} h1 h2"
    and vs: "read_all (read_controller h2) bs = Some vs" by blast
  from read_controller_stable [OF g2 v] vs heap_grows_trans [OF g1 g2] eq
  show ?case by simp
qed

subsection \<open>What the methods do to the session data\<close>

lemma read_all_Nil: "read_all f [] = Some []"
  by simp

text \<open>\<open>stopHeadTracking\<close>, on any state whose session object is readable.\<close>

lemma stopHeadTracking_value:
  assumes "read_snapshot (heap s) (vrSessionData s) = Some v"
  shows "read_snapshot (heap (stopHeadTracking s)) (vrSessionData s) =
           Some (v\<lparr>sv_controllers := [], sv_headPosition := zero_xyz, sv_headRotation := zero_xyz\<rparr>)"
    and "heap_grows {vrSessionData s} (heap s) (heap (stopHeadTracking s))"
    and "vrSessionData (stopHeadTracking s) = vrSessionData s"
proof -
  let ?c = "vrSessionData s"
  let ?h1 = "assign_headPosition zero_xyz ?c (heap s)"
  let ?h2 = "assign_headRotation zero_xyz ?c ?h1"
  let ?h3 = "assign_controllers [] ?c ?h2"
  have h: "heap (stopHeadTracking s) = ?h3" and c: "vrSessionData (stopHeadTracking s) = ?c"
    by (simp_all add: stopHeadTracking_def Let_def zero_xyz_def split: option.splits)
  note 1 = assign_headPosition_value [OF assms, of zero_xyz]
  note 2 = assign_headRotation_value [OF 1(1), of zero_xyz]
  note 3 = assign_controllers_value [OF 2(1) read_all_Nil]
  from 3(1) show "read_snapshot (heap (stopHeadTracking s)) ?c =
           Some (v\<lparr>sv_controllers := [], sv_headPosition := zero_xyz, sv_headRotation := zero_xyz\<rparr>)"
    unfolding h by simp
  show "heap_grows {?c} (heap s) (heap (stopHeadTracking s))"
    unfolding h by (rule heap_grows_trans [OF heap_grows_trans [OF 1(2) 2(2)] 3(2)])
  show "vrSessionData (stopHeadTracking s) = ?c" by (rule c)
qed

lemma stopHeadTracking_timers:
  assumes "vr_inv s"
  shows "intervals (stopHeadTracking s) = []" "headTrackingInterval (stopHeadTracking s) = None"
    "next_interval_id (stopHeadTracking s) = next_interval_id s"
  using assms
  by (auto simp: vr_inv_def stopHeadTracking_def Let_def split: option.splits)

lemma vr_inv_stopHeadTracking:
  assumes "vr_inv s"
  shows "vr_inv (stopHeadTracking s)"
proof -
  from assms obtain v where v: "read_snapshot (heap s) (vrSessionData s) = Some v"
    by (auto simp: vr_inv_def)
  from stopHeadTracking_value [OF v] stopHeadTracking_timers [OF assms] assms
  show ?thesis by (simp add: vr_inv_def split: option.splits)
qed

lemma tracking_tick_value:
  assumes "read_snapshot (heap s) (vrSessionData s) = Some v"
  shows "\<exists>w. read_snapshot (heap (tracking_tick xr s)) (vrSessionData s) = Some w \<and>
             sv_isActive w = sv_isActive v \<and> sv_isSupported w = sv_isSupported v"
    and "heap_grows {vrSessionData s} (heap s) (heap (tracking_tick xr s))"
    and "vrSessionData (tracking_tick xr s) = vrSessionData s"
    and "intervals (tracking_tick xr s) = intervals s"
    and "headTrackingInterval (tracking_tick xr s) = headTrackingInterval s"
    and "next_interval_id (tracking_tick xr s) = next_interval_id s"
proof -
  let ?c = "vrSessionData s"
  have "(\<exists>w. read_snapshot (heap (tracking_tick xr s)) ?c = Some w \<and>
             sv_isActive w = sv_isActive v \<and> sv_isSupported w = sv_isSupported v) \<and>
        heap_grows {?c} (heap s) (heap (tracking_tick xr s))"
  proof (cases "camera xr")
    case None
    with assms show ?thesis by (simp add: tracking_tick_def heap_grows_refl)
  next
    case (Some cam)
    obtain cpos crot where cam: "cam = (cpos, crot)" by (cases cam)
    let ?p = "(round2 (vx cpos), round2 (vy cpos), round2 (vz cpos))"
    let ?q = "(round2 (degrees (vx crot)), round2 (degrees (vy crot)), round2 (degrees (vz crot)))"
    let ?h1 = "assign_headPosition ?p ?c (heap s)"
    let ?h2 = "assign_headRotation ?q ?c ?h1"
    note 1 = assign_headPosition_value [OF assms, of ?p]
    note 2 = assign_headRotation_value [OF 1(1), of ?q]
    note g2 = heap_grows_trans [OF 1(2) 2(2)]
    show ?thesis
    proof (cases "input_controllers xr")
      case None
      with Some cam have "heap (tracking_tick xr s) = ?h2"
        by (simp add: tracking_tick_def Let_def)
      with 2(1) g2 show ?thesis by simp
    next
      case (Some cs)
      obtain as h3 where m: "map_controllers 0 cs ?h2 = (as, h3)"
        by (cases "map_controllers 0 cs ?h2")
      from map_controllers_readable [OF m] obtain vs where g3: "heap_grows {} ?h2 h3"
        and vs: "read_all (read_controller h3) as = Some vs" by blast
      from read_snapshot_stable [OF g3 2(1)] have v3: "read_snapshot h3 ?c = Some
          (v\<lparr>sv_headPosition := ?p, sv_headRotation := ?q\<rparr>)" by simp
      note 3 = assign_controllers_value [OF v3 vs]
      from Some \<open>camera xr = Some cam\<close> cam m
      have "heap (tracking_tick xr s) = assign_controllers as ?c h3"
        by (simp add: tracking_tick_def Let_def)
      with 3 heap_grows_trans [OF heap_grows_trans [OF g2 heap_grows_mono [OF g3]] 3(2)]
      show ?thesis by simp
    qed
  qed
  then show "\<exists>w. read_snapshot (heap (tracking_tick xr s)) ?c = Some w \<and>
             sv_isActive w = sv_isActive v \<and> sv_isSupported w = sv_isSupported v"
    and "heap_grows {?c} (heap s) (heap (tracking_tick xr s))" by blast+
  show "vrSessionData (tracking_tick xr s) = ?c"
    and "intervals (tracking_tick xr s) = intervals s"
    and "headTrackingInterval (tracking_tick xr s) = headTrackingInterval s"
    and "next_interval_id (tracking_tick xr s) = next_interval_id s"
    by (simp_all add: tracking_tick_def Let_def split_beta split: option.splits)
qed

lemma vr_inv_tracking_tick: "vr_inv s \<Longrightarrow> vr_inv (tracking_tick xr s)"
proof -
  assume i: "vr_inv s"
  then obtain v where v: "read_snapshot (heap s) (vrSessionData s) = Some v"
    by (auto simp: vr_inv_def)
  from tracking_tick_value(1) [OF v, of xr] obtain w
    where "read_snapshot (heap (tracking_tick xr s)) (vrSessionData s) = Some w" by blast
  with tracking_tick_value(3-6) [OF v, of xr] i show ?thesis
    by (simp add: vr_inv_def split: option.splits)
qed

lemma startHeadTracking_fields:
  "heap (startHeadTracking s) = heap s" "vrSessionData (startHeadTracking s) = vrSessionData s"
  by (simp_all add: startHeadTracking_def clear_if_set_def Let_def split: option.splits)

lemma vr_inv_startHeadTracking: "vr_inv s \<Longrightarrow> vr_inv (startHeadTracking s)"
  by (auto simp: vr_inv_def startHeadTracking_def clear_if_set_def Let_def split: option.splits)

lemma assign_isActive_value:
  assumes "read_snapshot h c = Some v"
  shows "read_snapshot (assign_session (\<lambda>r. r\<lparr>isActive := b\<rparr>) c h) c = Some (v\<lparr>sv_isActive := b\<rparr>)"
  using assign_flag [OF assms, of "\<lambda>r. r\<lparr>isActive := b\<rparr>" "\<lambda>r. b" isSupported b "sv_isSupported v"]
  by simp

lemma assign_isSupported_value:
  assumes "read_snapshot h c = Some v"
  shows "read_snapshot (assign_session (\<lambda>r. r\<lparr>isSupported := b\<rparr>) c h) c = Some (v\<lparr>sv_isSupported := b\<rparr>)"
  using assign_flag [OF assms, of "\<lambda>r. r\<lparr>isSupported := b\<rparr>" isActive "\<lambda>r. b" "sv_isActive v" b]
  by simp

text \<open>The handler of a state change, in particular the end of a session.\<close>

lemma onStateChanged_NOT_IN_XR:
  assumes "read_snapshot (heap s) (vrSessionData s) = Some v"
  shows "read_snapshot (heap (onStateChanged NOT_IN_XR s)) (vrSessionData s) =
           Some (v\<lparr>sv_isActive := False, sv_controllers := [], sv_headPosition := zero_xyz,
                   sv_headRotation := zero_xyz\<rparr>)"
proof -
  let ?s1 = "s\<lparr>heap := assign_session (\<lambda>r. r\<lparr>isActive := False\<rparr>) (vrSessionData s) (heap s)\<rparr>"
  have e: "onStateChanged NOT_IN_XR s = stopHeadTracking ?s1"
    by (simp add: onStateChanged_def)
  have "read_snapshot (heap ?s1) (vrSessionData ?s1) = Some (v\<lparr>sv_isActive := False\<rparr>)"
    using assign_isActive_value [OF assms, of False] by simp
  from stopHeadTracking_value(1) [OF this] show ?thesis unfolding e by simp
qed

lemma vr_inv_onStateChanged: "vr_inv s \<Longrightarrow> vr_inv (onStateChanged st s)"
proof -
  assume i: "vr_inv s"
  then obtain v where v: "read_snapshot (heap s) (vrSessionData s) = Some v"
    by (auto simp: vr_inv_def)
  let ?s1 = "s\<lparr>heap := assign_session (\<lambda>r. r\<lparr>isActive := (st = IN_XR)\<rparr>) (vrSessionData s) (heap s)\<rparr>"
  have "vr_inv ?s1"
    using assign_isActive_value [OF v, of "st = IN_XR"] i
    by (simp add: vr_inv_def split: option.splits)
  then have "vr_inv (startHeadTracking ?s1)" "vr_inv (stopHeadTracking ?s1)" "vr_inv ?s1"
    by (simp_all add: vr_inv_startHeadTracking vr_inv_stopHeadTracking)
  then show ?thesis
    unfolding onStateChanged_def Let_def
    by (cases "st = IN_XR"; cases "st = NOT_IN_XR") simp_all
qed

lemma heap_onStateChanged:
  assumes "read_snapshot (heap s) (vrSessionData s) = Some v"
  shows "heap_grows {vrSessionData s} (heap s) (heap (onStateChanged st s))"
    and "vrSessionData (onStateChanged st s) = vrSessionData s"
proof -
  let ?c = "vrSessionData s"
  let ?s1 = "s\<lparr>heap := assign_session (\<lambda>r. r\<lparr>isActive := (st = IN_XR)\<rparr>) ?c (heap s)\<rparr>"
  have g1: "heap_grows {?c} (heap s) (heap ?s1)" by (simp add: heap_grows_assign)
  have v1: "read_snapshot (heap ?s1) (vrSessionData ?s1) = Some (v\<lparr>sv_isActive := (st = IN_XR)\<rparr>)"
    using assign_isActive_value [OF assms, of "st = IN_XR"] by simp
  from stopHeadTracking_value(2,3) [OF v1] have g2: "heap_grows {?c} (heap ?s1) (heap (stopHeadTracking ?s1))"
    and c2: "vrSessionData (stopHeadTracking ?s1) = ?c" by simp_all
  have g3: "heap_grows {?c} (heap s) (heap (startHeadTracking ?s1))"
    using g1 by (simp only: startHeadTracking_fields)
  have c3: "vrSessionData (startHeadTracking ?s1) = ?c" "vrSessionData ?s1 = ?c"
    by (simp_all add: startHeadTracking_fields)
  show "heap_grows {?c} (heap s) (heap (onStateChanged st s))"
    using g1 g3 heap_grows_trans [OF g1 g2]
    unfolding onStateChanged_def Let_def
    by (cases "st = IN_XR"; cases "st = NOT_IN_XR") simp_all
  show "vrSessionData (onStateChanged st s) = ?c"
    using c2 c3 unfolding onStateChanged_def Let_def
    by (cases "st = IN_XR"; cases "st = NOT_IN_XR") simp_all
qed

lemma vr_inv_init: "vr_inv VRSceneManager"
  by (simp add: vr_inv_def VRSceneManager_def alloc_def read_snapshot_def read_controllers_def
      read_xyz_def)

lemma getVRSessionData_value:
  assumes "read_snapshot (heap s) (vrSessionData s) = Some v"
  shows "fst (getVRSessionData s) = length (heap s)"
    and "fst (getVRSessionData s) \<noteq> vrSessionData s"
    and "heap (snd (getVRSessionData s)) = heap s @ [heap s ! vrSessionData s]"
    and "vrSessionData (snd (getVRSessionData s)) = vrSessionData s"
    and "read_snapshot (heap (snd (getVRSessionData s))) (fst (getVRSessionData s)) = Some v"
    and "read_snapshot (heap (snd (getVRSessionData s))) (vrSessionData s) = Some v"
    and "intervals (snd (getVRSessionData s)) = intervals s"
    and "headTrackingInterval (snd (getVRSessionData s)) = headTrackingInterval s"
    and "next_interval_id (snd (getVRSessionData s)) = next_interval_id s"
proof -
  let ?c = "vrSessionData s"
  from assms obtain r cs hp hr where c: "?c < length (heap s)" and o: "heap s ! ?c = SessionData r"
    and rd: "read_controllers (heap s) (controllers r) = Some cs"
      "read_xyz (heap s) (headPosition r) = Some hp" "read_xyz (heap s) (headRotation r) = Some hr"
    and v: "v = \<lparr>sv_isActive = isActive r, sv_isSupported = isSupported r,
                        sv_controllers = cs, sv_headPosition = hp, sv_headRotation = hr\<rparr>"
    unfolding read_snapshot_Some by blast
  from c o have t: "the_session s = Some r" by (simp add: the_session_def)
  then have g: "getVRSessionData s = (length (heap s), s\<lparr>heap := heap s @ [SessionData r]\<rparr>)"
    by (simp add: getVRSessionData_def alloc_def)
  show "fst (getVRSessionData s) = length (heap s)" by (simp add: g)
  show "fst (getVRSessionData s) \<noteq> ?c" using c by (simp add: g)
  show "heap (snd (getVRSessionData s)) = heap s @ [heap s ! ?c]" by (simp add: g o)
  show "vrSessionData (snd (getVRSessionData s)) = ?c" by (simp add: g)
  show "intervals (snd (getVRSessionData s)) = intervals s"
    "headTrackingInterval (snd (getVRSessionData s)) = headTrackingInterval s"
    "next_interval_id (snd (getVRSessionData s)) = next_interval_id s" by (simp_all add: g)
  have gr: "heap_grows {} (heap s) (heap s @ [SessionData r])" by (rule heap_grows_append)
  have "read_snapshot (heap s @ [SessionData r]) (length (heap s)) = Some v"
    unfolding v by (rule read_snapshot_from [OF gr _ _ rd]) simp_all
  then show "read_snapshot (heap (snd (getVRSessionData s))) (fst (getVRSessionData s)) = Some v"
    by (simp add: g)
  from read_snapshot_stable [OF gr assms]
  show "read_snapshot (heap (snd (getVRSessionData s))) ?c = Some v" by (simp add: g)
qed

text \<open>Every event keeps the invariant, the reference to the session object, and every
  object of the store other than the session object.\<close>

lemma vr_step_effect:
  assumes "vr_inv s"
  shows "vr_inv (vr_step ev s) \<and> vrSessionData (vr_step ev s) = vrSessionData s \<and>
         heap_grows {vrSessionData s} (heap s) (heap (vr_step ev s))"
proof -
  from assms obtain v where v: "read_snapshot (heap s) (vrSessionData s) = Some v"
    by (auto simp: vr_inv_def)
  show ?thesis
  proof (cases ev)
    case (SetupVR ok)
    from assign_isSupported_value [OF v, of ok] assms SetupVR show ?thesis
      by (simp add: vr_inv_def heap_grows_assign split: option.splits)
  next
    case (StateChanged st)
    with vr_inv_onStateChanged [OF assms, of st] heap_onStateChanged [OF v, of st]
    show ?thesis by simp
  next
    case (Tick xr)
    with vr_inv_tracking_tick [OF assms, of xr] tracking_tick_value(2,3) [OF v, of xr] assms
    show ?thesis by (simp add: heap_grows_refl)
  next
    case GetVRSessionData
    from getVRSessionData_value [OF v] assms GetVRSessionData show ?thesis
      by (simp add: vr_inv_def heap_grows_append split: option.splits)
  next
    case Dispose
    with vr_inv_stopHeadTracking [OF assms] stopHeadTracking_value(2,3) [OF v]
    show ?thesis by simp
  qed
qed

lemma vr_run_effect:
  "vr_inv s \<Longrightarrow>
   vr_inv (vr_run evs s) \<and> vrSessionData (vr_run evs s) = vrSessionData s \<and>
   heap_grows {vrSessionData s} (heap s) (heap (vr_run evs s))"
proof (induction evs arbitrary: s)
  case Nil
  then show ?case by (simp add: vr_run_def heap_grows_refl)
next
  case (Cons ev evs)
  note 1 = vr_step_effect [OF Cons.prems, of ev]
  from 1 have i1: "vr_inv (vr_step ev s)" by simp
  note 2 = Cons.IH [OF i1]
  have r: "vr_run (ev # evs) s = vr_run evs (vr_step ev s)" by (simp add: vr_run_def)
  from 1 2 have "heap_grows {vrSessionData s} (heap s) (heap (vr_run evs (vr_step ev s)))"
    using heap_grows_trans [of "{vrSessionData s}" "heap s" "heap (vr_step ev s)"
        "heap (vr_run evs (vr_step ev s))"] by simp
  with 1 2 show ?case unfolding r by simp
qed


lemmas vr_eval =
  tracking_def vr_run_def VRSceneManager_def alloc_def demo_frame_def onStateChanged_def
  startHeadTracking_def clear_if_set_def tracking_tick_def assign_headPosition_def
  assign_headRotation_def assign_controllers_def assign_session_def controller_data_def
  read_snapshot_def read_controllers_def read_controller_def read_xyz_def round2_def degrees_def
  Let_def nth_append

lemma tracking_value:
  "read_snapshot (heap tracking) (vrSessionData tracking) =
     Some \<lparr>sv_isActive = True, sv_isSupported = True,
           sv_controllers = [(''controller_0'', (Num 0, Num 0, Num 0), (Num 0, Num 0, Num 0), True)],
           sv_headPosition = (Num (123 / 100), Num (8 / 5), Num (- (1 / 2))),
           sv_headRotation = (Num 0, Num 0, Num 0)\<rparr>"
  by (simp add: vr_eval digit_def)



subsection \<open>The end of a session\<close>

text \<open>
  Claim C7. In every state the manager reaches, whatever the session data are,
  \<open>stopHeadTracking\<close> leaves the head position and the head rotation at \<open>(0, 0, 0)\<close> and
  the controller list empty, and stops the poll (no interval timer is left running); the
  two flags are as before. The handler of the end of a session (state \<open>NOT_IN_XR\<close>)
  does the same and has cleared \<open>isActive\<close>.
\<close>

theorem session_end_resets_tracking:
  fixes evs :: "vr_event list"
  defines "s \<equiv> vr_run evs VRSceneManager"
  shows "\<exists>v. read_snapshot (heap s) (vrSessionData s) = Some v \<and>
           read_snapshot (heap (stopHeadTracking s)) (vrSessionData (stopHeadTracking s)) =
             Some (v\<lparr>sv_controllers := [], sv_headPosition := (Num 0, Num 0, Num 0),
                     sv_headRotation := (Num 0, Num 0, Num 0)\<rparr>) \<and>
           read_snapshot (heap (onStateChanged NOT_IN_XR s))
               (vrSessionData (onStateChanged NOT_IN_XR s)) =
             Some (v\<lparr>sv_isActive := False, sv_controllers := [],
                     sv_headPosition := (Num 0, Num 0, Num 0),
                     sv_headRotation := (Num 0, Num 0, Num 0)\<rparr>) \<and>
           intervals (stopHeadTracking s) = [] \<and>
           headTrackingInterval (stopHeadTracking s) = None"
proof -
  have i: "vr_inv s" unfolding s_def using vr_run_effect [OF vr_inv_init] by simp
  then obtain v where v: "read_snapshot (heap s) (vrSessionData s) = Some v"
    by (auto simp: vr_inv_def)
  from stopHeadTracking_value(1,3) [OF v] onStateChanged_NOT_IN_XR [OF v]
    heap_onStateChanged(2) [OF v, of NOT_IN_XR] stopHeadTracking_timers(1,2) [OF i] v
  show ?thesis by (simp add: zero_xyz_def)
qed


theorem session_end_resets_tracking_witness:
  "read_snapshot (heap tracking) (vrSessionData tracking) =
     Some \<lparr>sv_isActive = True, sv_isSupported = True,
           sv_controllers = [(''controller_0'', (Num 0, Num 0, Num 0), (Num 0, Num 0, Num 0), True)],
           sv_headPosition = (Num (123 / 100), Num (8 / 5), Num (- (1 / 2))),
           sv_headRotation = (Num 0, Num 0, Num 0)\<rparr> \<and>
   read_snapshot (heap (onStateChanged NOT_IN_XR tracking))
       (vrSessionData (onStateChanged NOT_IN_XR tracking)) =
     Some \<lparr>sv_isActive = False, sv_isSupported = True, sv_controllers = [],
           sv_headPosition = (Num 0, Num 0, Num 0), sv_headRotation = (Num 0, Num 0, Num 0)\<rparr> \<and>
   read_snapshot (heap (stopHeadTracking tracking)) (vrSessionData (stopHeadTracking tracking)) =
     Some \<lparr>sv_isActive = True, sv_isSupported = True, sv_controllers = [],
           sv_headPosition = (Num 0, Num 0, Num 0), sv_headRotation = (Num 0, Num 0, Num 0)\<rparr>"
  using session_end_resets_tracking [of "[SetupVR True, StateChanged IN_XR, Tick demo_frame]"]
    tracking_value
  by (simp add: tracking_def [symmetric])


subsection \<open>Snapshots\<close>

text \<open>
  Claim C8, amended. \<open>getVRSessionData\<close> returns a new object, not the session object
  of the manager, holding the same five fields: a shallow copy, whose position, rotation
  and controller list are the very objects the manager's fields refer to at that moment.
  Whatever the manager does afterwards (state changes, polls, further snapshots,
  disposal), the value read through the snapshot stays what it was, because the manager
  assigns new objects to its fields and never writes into the old ones. And whatever a
  holder assigns to the fields of the snapshot object itself, the value of the manager's
  session object stays what it is.
\<close>

theorem snapshot_is_shallow_copy:
  fixes evs evs' :: "vr_event list" and f :: "vr_session_data \<Rightarrow> vr_session_data"
  defines "s \<equiv> vr_run evs VRSceneManager"
  defines "a \<equiv> fst (getVRSessionData s)"
  defines "s1 \<equiv> snd (getVRSessionData s)"
  defines "s2 \<equiv> vr_run evs' s1"
  shows "a = length (heap s) \<and> a \<noteq> vrSessionData s \<and>
         heap s1 = heap s @ [heap s ! vrSessionData s] \<and>
         vrSessionData s2 = vrSessionData s \<and>
         (\<exists>v. read_snapshot (heap s) (vrSessionData s) = Some v \<and>
              read_snapshot (heap s1) (vrSessionData s1) = Some v \<and>
              read_snapshot (heap s1) a = Some v \<and>
              read_snapshot (heap s2) a = Some v) \<and>
         (\<exists>w. read_snapshot (heap s2) (vrSessionData s2) = Some w \<and>
              read_snapshot (assign_session f a (heap s2)) (vrSessionData s2) = Some w)"
proof -
  have i: "vr_inv s" unfolding s_def using vr_run_effect [OF vr_inv_init] by simp
  then obtain v where v: "read_snapshot (heap s) (vrSessionData s) = Some v"
    by (auto simp: vr_inv_def)
  note g = getVRSessionData_value [OF v, folded a_def s1_def]
  have i1: "vr_inv s1"
    using vr_step_effect [OF i, of GetVRSessionData] by (simp add: s1_def)
  note r = vr_run_effect [OF i1, of evs', folded s2_def]
  from r g(4) have c2: "vrSessionData s2 = vrSessionData s" by simp
  from r g(4) have gr: "heap_grows {vrSessionData s} (heap s1) (heap s2)" by simp
  from read_snapshot_stable [OF gr g(5)] g(2)
  have v2: "read_snapshot (heap s2) a = Some v" by simp
  from r obtain w where w: "read_snapshot (heap s2) (vrSessionData s2) = Some w"
    by (auto simp: vr_inv_def)
  have w': "read_snapshot (assign_session f a (heap s2)) (vrSessionData s2) = Some w"
    by (rule read_snapshot_stable [OF heap_grows_assign w]) (use g(2) c2 in simp)
  from g(4,6) have v1: "read_snapshot (heap s1) (vrSessionData s1) = Some v" by simp
  have A: "\<exists>v. read_snapshot (heap s) (vrSessionData s) = Some v \<and>
              read_snapshot (heap s1) (vrSessionData s1) = Some v \<and>
              read_snapshot (heap s1) a = Some v \<and>
              read_snapshot (heap s2) a = Some v"
    using v v1 g(5) v2 by blast
  have B: "\<exists>w. read_snapshot (heap s2) (vrSessionData s2) = Some w \<and>
              read_snapshot (assign_session f a (heap s2)) (vrSessionData s2) = Some w"
    using w w' by blast
  from g(1,2,3) c2 A B show ?thesis by blast
qed


theorem snapshot_is_shallow_copy_witness:
  "read_snapshot (heap (snd (getVRSessionData tracking))) (fst (getVRSessionData tracking)) =
     Some \<lparr>sv_isActive = True, sv_isSupported = True,
           sv_controllers = [(''controller_0'', (Num 0, Num 0, Num 0), (Num 0, Num 0, Num 0), True)],
           sv_headPosition = (Num (123 / 100), Num (8 / 5), Num (- (1 / 2))),
           sv_headRotation = (Num 0, Num 0, Num 0)\<rparr> \<and>
   read_snapshot (heap (vr_run [StateChanged NOT_IN_XR] (snd (getVRSessionData tracking))))
       (fst (getVRSessionData tracking)) =
     Some \<lparr>sv_isActive = True, sv_isSupported = True,
           sv_controllers = [(''controller_0'', (Num 0, Num 0, Num 0), (Num 0, Num 0, Num 0), True)],
           sv_headPosition = (Num (123 / 100), Num (8 / 5), Num (- (1 / 2))),
           sv_headRotation = (Num 0, Num 0, Num 0)\<rparr> \<and>
   read_snapshot (assign_session (\<lambda>r. r\<lparr>isActive := False, headPosition := 0\<rparr>)
        (fst (getVRSessionData tracking)) (heap (snd (getVRSessionData tracking))))
       (vrSessionData tracking) =
     Some \<lparr>sv_isActive = True, sv_isSupported = True,
           sv_controllers = [(''controller_0'', (Num 0, Num 0, Num 0), (Num 0, Num 0, Num 0), True)],
           sv_headPosition = (Num (123 / 100), Num (8 / 5), Num (- (1 / 2))),
           sv_headRotation = (Num 0, Num 0, Num 0)\<rparr>"
proof -
  note t = snapshot_is_shallow_copy [of "[SetupVR True, StateChanged IN_XR, Tick demo_frame]",
      folded tracking_def]
  from t [of "[StateChanged NOT_IN_XR]"] t [of "[]" "\<lambda>r. r\<lparr>isActive := False, headPosition := 0\<rparr>"]
    tracking_value
  show ?thesis by (auto simp: vr_run_def)
qed

text \<open>
  The claim as stated fails for a write into an object the snapshot refers to: after
  \<^verbatim>\<open>snapshot.headPosition.x = 5\<close> on a snapshot of a new manager, the manager's own
  head position reads \<open>(5, 0, 0)\<close>.
\<close>

theorem snapshot_shares_nested_objects_counterexample:
  "read_snapshot (heap (snd shared_snapshot)) (vrSessionData (snd shared_snapshot)) =
     Some \<lparr>sv_isActive = False, sv_isSupported = False, sv_controllers = [],
           sv_headPosition = (Num 0, Num 0, Num 0), sv_headRotation = (Num 0, Num 0, Num 0)\<rparr> \<and>
   fst shared_snapshot \<noteq> vrSessionData (snd shared_snapshot) \<and>
   read_snapshot (write_headPosition_x (fst shared_snapshot) (Num 5) (heap (snd shared_snapshot)))
       (vrSessionData (snd shared_snapshot)) =
     Some \<lparr>sv_isActive = False, sv_isSupported = False, sv_controllers = [],
           sv_headPosition = (Num 5, Num 0, Num 0), sv_headRotation = (Num 0, Num 0, Num 0)\<rparr>"
  unfolding shared_snapshot_def by code_simp

end
